theory Spec2Isabelle
  imports Complex_Main "HOL-Library.Multiset" "HOL-Library.AList" "HOL-Library.Log_Nat"
begin

section \<open>Conventions of the embedding\<close>

text \<open>
  The agent layer is TypeScript run on a single-threaded event loop.  Every class becomes a
  record of its fields, every method a function that takes the object and returns the
  updated object; a \<^verbatim>\<open>throw\<close> is the left injection of a sum.

  An asynchronous callback (the operation wrapped by a circuit breaker, the process
  callback of a queue, the operation retried by \<^verbatim>\<open>withRetry\<close>) is a function on an
  explicit world: it receives the world in which it is invoked and returns its outcome
  together with the world in which it settles.  The world carries the wall clock read by
  \<^verbatim>\<open>Date.now()\<close>; an extension of the record may carry anything else the callback
  touches.  A method that hands back the world it was given, for every callback, has
  not invoked the callback.

  A method is modelled as running from its call to its return with no other task
  interleaved at its \<^verbatim>\<open>await\<close>s; what another task may do in between is a change of
  the object or of the world between two calls.

  Times, counters and delays are JavaScript numbers holding integers (milliseconds,
  counts) below \<open>2 ^ 53\<close>, where addition and subtraction of integers are exact; they
  are modelled by \<^typ>\<open>int\<close> and \<^typ>\<open>nat\<close>.  A priority or a latency is a finite
  number that need not be an integer; it is modelled by \<^typ>\<open>rat\<close>.  Where the source
  divides, multiplies or sums such numbers, the model computes in IEEE double precision
  (section on JavaScript numbers below).
\<close>

record world =
  clock :: int

section \<open>Errors: \<^verbatim>\<open>src/agents/utils.ts\<close>\<close>

text \<open>
  \<^verbatim>\<open>
  export enum AgentErrorType {
    VALIDATION = "validation", TIMEOUT = "timeout",
    QUEUE_FULL = "queue_full", INTERNAL = "internal",
  }
  export class AgentError extends Error {
    constructor(public type: AgentErrorType, message: string) { ... }
  }
  \<close>
  The enumeration has four members and the constructor two parameters.
\<close>

datatype AgentErrorType = VALIDATION | TIMEOUT | QUEUE_FULL | INTERNAL

record AgentError =
  err_type :: "AgentErrorType option"
  err_message :: string

definition AgentError_new :: "AgentErrorType option \<Rightarrow> string \<Rightarrow> AgentError" where
  "AgentError_new ty msg = \<lparr>err_type = ty, err_message = msg\<rparr>"

text \<open>
  Several call sites read \<^verbatim>\<open>AgentErrorType.OPERATION\<close> and pass a third argument to the
  constructor.  The enumeration object has no such member, so the read yields
  \<^verbatim>\<open>undefined\<close> (here \<open>None\<close>); the constructor binds two parameters, so a third
  argument is evaluated and dropped.
\<close>

definition AgentErrorType_OPERATION :: "AgentErrorType option" where
  "AgentErrorType_OPERATION = None"

definition AgentError_new3 :: "AgentErrorType option \<Rightarrow> string \<Rightarrow> 'd \<Rightarrow> AgentError" where
  "AgentError_new3 ty msg details = AgentError_new ty msg"

section \<open>Circuit breaker: \<^verbatim>\<open>src/agents/CircuitBreaker.ts\<close>\<close>

datatype CircuitState = CLOSED | OPEN | HALF_OPEN

record CircuitBreakerConfig =
  failureThreshold :: int
  resetTimeout :: int
  halfOpenTimeout :: int

record CircuitBreaker =
  cb_config :: CircuitBreakerConfig
  cb_state :: CircuitState
  cb_failures :: int
  cb_lastFailureTime :: int
  cb_lastStateChange :: int

definition CircuitBreaker_new :: "CircuitBreakerConfig \<Rightarrow> 'm world_scheme \<Rightarrow> CircuitBreaker" where
  "CircuitBreaker_new config w =
     \<lparr>cb_config = config, cb_state = CLOSED, cb_failures = 0,
      cb_lastFailureTime = 0, cb_lastStateChange = clock w\<rparr>"

definition transitionTo :: "CircuitState \<Rightarrow> CircuitBreaker \<Rightarrow> 'm world_scheme \<Rightarrow> CircuitBreaker" where
  "transitionTo newState cb w =
     (let cb1 = cb\<lparr>cb_state := newState, cb_lastStateChange := clock w\<rparr>
      in if newState = CLOSED then cb1\<lparr>cb_failures := 0\<rparr> else cb1)"

definition checkState :: "CircuitBreaker \<Rightarrow> 'm world_scheme \<Rightarrow> AgentError + CircuitBreaker" where
  "checkState cb w =
     (let now = clock w in
      case cb_state cb of
        OPEN \<Rightarrow>
          if now - cb_lastStateChange cb \<ge> resetTimeout (cb_config cb)
          then Inr (transitionTo HALF_OPEN cb w)
          else Inl (AgentError_new3 AgentErrorType_OPERATION ''Circuit breaker is OPEN''
                      (resetTimeout (cb_config cb) - (now - cb_lastStateChange cb)))
      | HALF_OPEN \<Rightarrow>
          if now - cb_lastStateChange cb \<ge> halfOpenTimeout (cb_config cb)
          then Inr (transitionTo CLOSED cb w)
          else Inr cb
      | CLOSED \<Rightarrow> Inr cb)"

definition onSuccess :: "CircuitBreaker \<Rightarrow> 'm world_scheme \<Rightarrow> CircuitBreaker" where
  "onSuccess cb w =
     (let cb1 = (if cb_state cb = HALF_OPEN then transitionTo CLOSED cb w else cb)
      in cb1\<lparr>cb_failures := 0\<rparr>)"

definition onFailure :: "CircuitBreaker \<Rightarrow> 'm world_scheme \<Rightarrow> CircuitBreaker" where
  "onFailure cb w =
     (let cb1 = cb\<lparr>cb_failures := cb_failures cb + 1, cb_lastFailureTime := clock w\<rparr>
      in if cb_failures cb1 \<ge> failureThreshold (cb_config cb1)
         then transitionTo OPEN cb1 w else cb1)"

text \<open>
  \<^verbatim>\<open>execute\<close>: a throw of \<^verbatim>\<open>checkState\<close> leaves the method before the operation is
  called; otherwise the operation runs in the current world and the breaker records its
  outcome at the time it settles.  A failure of the operation is always rethrown as a
  fresh \<^verbatim>\<open>AgentError\<close>.
\<close>

definition execute ::
  "('m world_scheme \<Rightarrow> ('e + 'a) \<times> 'm world_scheme) \<Rightarrow> string \<Rightarrow> CircuitBreaker \<Rightarrow> 'm world_scheme
     \<Rightarrow> (AgentError + 'a) \<times> CircuitBreaker \<times> 'm world_scheme" where
  "execute operation ctx cb w =
     (case checkState cb w of
        Inl err \<Rightarrow> (Inl err, cb, w)
      | Inr cb1 \<Rightarrow>
          (case operation w of
             (Inr result, w') \<Rightarrow> (Inr result, onSuccess cb1 w', w')
           | (Inl error, w') \<Rightarrow>
               (Inl (AgentError_new3 AgentErrorType_OPERATION
                       (''Circuit breaker: '' @ ctx @ '' failed'') error),
                onFailure cb1 w', w')))"

definition getState :: "CircuitBreaker \<Rightarrow> CircuitState" where
  "getState cb = cb_state cb"

definition getFailureCount :: "CircuitBreaker \<Rightarrow> int" where
  "getFailureCount cb = cb_failures cb"

section \<open>JavaScript numbers\<close>

text \<open>
  A JavaScript number is an IEEE 754 double: a finite value, an infinity, or NaN.  A
  finite double is a rational of the form \<open>m * 2 ^ k\<close> with \<open>\<bar>m\<bar> < 2 ^ 53\<close> and
  \<open>- 1074 \<le> k \<le> 971\<close>.  The two zeros are not distinguished (they differ only as
  divisors, and a zero divisor is taken to be positive).
\<close>

datatype js_number = Num rat | PosInf | NegInf | NaN

text \<open>
  \<open>binade x\<close> is the exponent \<open>e\<close> with \<open>2 ^ e \<le> \<bar>x\<bar> < 2 ^ (e + 1)\<close>, for
  \<open>x \<noteq> 0\<close>, found from the bit lengths of numerator and denominator.
\<close>

definition binade :: "rat \<Rightarrow> int" where
  "binade x =
     (let e0 = int (floorlog 2 (nat \<bar>fst (quotient_of x)\<bar>)) - int (floorlog 2 (nat (snd (quotient_of x))))
      in if 2 powi e0 \<le> \<bar>x\<bar> then e0 else e0 - 1)"

definition round_half_even :: "rat \<Rightarrow> int" where
  "round_half_even y =
     (let f = \<lfloor>y\<rfloor>; d = y - of_int f
      in if d < 1 / 2 then f else if d > 1 / 2 then f + 1 else if even f then f else f + 1)"

text \<open>
  Rounding to nearest, ties to even: the result of every arithmetic operation on doubles
  is the exact result rounded so.  The spacing of doubles around \<open>x\<close> is
  \<open>2 ^ (e - 52)\<close> with \<open>e\<close> the binade of \<open>x\<close>, and \<open>2 ^ (- 1074)\<close> below the normal
  range; a result that rounds to \<open>2 ^ 1024\<close> or more is an infinity.
\<close>

definition round_to_double :: "rat \<Rightarrow> js_number" where
  "round_to_double x =
     (if x = 0 then Num 0
      else
        (let e = max (binade x) (- 1022);
             quantum = 2 powi (e - 52);
             r = of_int (round_half_even (\<bar>x\<bar> / quantum)) * quantum
         in if r \<ge> 2 powi 1024 then (if x > 0 then PosInf else NegInf)
            else Num (if x > 0 then r else - r)))"

definition sign_of :: "js_number \<Rightarrow> rat" where
  "sign_of x = (case x of Num a \<Rightarrow> sgn a | PosInf \<Rightarrow> 1 | NegInf \<Rightarrow> - 1 | NaN \<Rightarrow> 0)"

definition signed_infinity :: "rat \<Rightarrow> js_number" where
  "signed_infinity s = (if s > 0 then PosInf else if s < 0 then NegInf else NaN)"

fun fl_neg :: "js_number \<Rightarrow> js_number" where
  "fl_neg (Num a) = Num (- a)"
| "fl_neg PosInf = NegInf"
| "fl_neg NegInf = PosInf"
| "fl_neg NaN = NaN"

fun fl_add :: "js_number \<Rightarrow> js_number \<Rightarrow> js_number" where
  "fl_add (Num a) (Num b) = round_to_double (a + b)"
| "fl_add NaN y = NaN"
| "fl_add x NaN = NaN"
| "fl_add PosInf NegInf = NaN"
| "fl_add NegInf PosInf = NaN"
| "fl_add PosInf y = PosInf"
| "fl_add x PosInf = PosInf"
| "fl_add NegInf y = NegInf"
| "fl_add x NegInf = NegInf"

definition fl_sub :: "js_number \<Rightarrow> js_number \<Rightarrow> js_number" where
  "fl_sub x y = fl_add x (fl_neg y)"

fun fl_mul :: "js_number \<Rightarrow> js_number \<Rightarrow> js_number" where
  "fl_mul (Num a) (Num b) = round_to_double (a * b)"
| "fl_mul NaN y = NaN"
| "fl_mul x NaN = NaN"
| "fl_mul x y = signed_infinity (sign_of x * sign_of y)"

fun fl_div :: "js_number \<Rightarrow> js_number \<Rightarrow> js_number" where
  "fl_div (Num a) (Num b) = (if b = 0 then signed_infinity (sgn a) else round_to_double (a / b))"
| "fl_div NaN y = NaN"
| "fl_div x NaN = NaN"
| "fl_div (Num a) y = Num 0"
| "fl_div x (Num b) = signed_infinity (sign_of x * (if b = 0 then 1 else sgn b))"
| "fl_div x y = NaN"

section \<open>Health metrics: \<^verbatim>\<open>src/agents/HealthMetrics.ts\<close>\<close>

text \<open>
  Counters are integers.  A latency sample is a finite number.  The success rate and the
  mean latency are computed as the source computes them, operation by operation in
  double precision.
\<close>

record HealthMetricsData =
  messageCount :: int
  errorCount :: int
  successRate :: js_number
  avgProcessingTime :: js_number
  lastProcessingTime :: rat
  lastErrorTime :: int
  lastSuccessTime :: int

record HealthMetrics =
  hm_messageCount :: int
  hm_errorCount :: int
  hm_processingTimes :: "rat list"
  hm_maxSamples :: nat
  hm_lastProcessingTime :: rat
  hm_lastErrorTime :: int
  hm_lastSuccessTime :: int

definition HealthMetrics_new :: HealthMetrics where
  "HealthMetrics_new =
     \<lparr>hm_messageCount = 0, hm_errorCount = 0, hm_processingTimes = [], hm_maxSamples = 100,
      hm_lastProcessingTime = 0, hm_lastErrorTime = 0, hm_lastSuccessTime = 0\<rparr>"

text \<open>\<^verbatim>\<open>push\<close>, then \<^verbatim>\<open>shift\<close> (drop the oldest sample) when the buffer exceeds \<^verbatim>\<open>maxSamples\<close>.\<close>

definition addProcessingTime :: "rat \<Rightarrow> HealthMetrics \<Rightarrow> HealthMetrics" where
  "addProcessingTime time hm =
     (let pushed = hm_processingTimes hm @ [time]
      in hm\<lparr>hm_processingTimes :=
              (if length pushed > hm_maxSamples hm then tl pushed else pushed)\<rparr>)"

definition recordSuccess :: "rat \<Rightarrow> HealthMetrics \<Rightarrow> 'm world_scheme \<Rightarrow> HealthMetrics" where
  "recordSuccess processingTime hm w =
     addProcessingTime processingTime
       (hm\<lparr>hm_messageCount := hm_messageCount hm + 1,
           hm_lastProcessingTime := processingTime,
           hm_lastSuccessTime := clock w\<rparr>)"

definition recordError :: "rat \<Rightarrow> HealthMetrics \<Rightarrow> 'm world_scheme \<Rightarrow> HealthMetrics" where
  "recordError processingTime hm w =
     addProcessingTime processingTime
       (hm\<lparr>hm_messageCount := hm_messageCount hm + 1,
           hm_errorCount := hm_errorCount hm + 1,
           hm_lastProcessingTime := processingTime,
           hm_lastErrorTime := clock w\<rparr>)"

definition HM_getMetrics :: "HealthMetrics \<Rightarrow> HealthMetricsData" where
  "HM_getMetrics hm =
     (let successRate =
            (if hm_messageCount hm > 0
             then fl_mul
                    (fl_div (fl_sub (Num (of_int (hm_messageCount hm))) (Num (of_int (hm_errorCount hm))))
                            (Num (of_int (hm_messageCount hm))))
                    (Num 100)
             else Num 100);
          avgProcessingTime =
            (if length (hm_processingTimes hm) > 0
             then fl_div (foldl (\<lambda>a b. fl_add a (Num b)) (Num 0) (hm_processingTimes hm))
                         (Num (of_nat (length (hm_processingTimes hm))))
             else Num 0)
      in \<lparr>messageCount = hm_messageCount hm, errorCount = hm_errorCount hm,
          successRate = successRate, avgProcessingTime = avgProcessingTime,
          lastProcessingTime = hm_lastProcessingTime hm,
          lastErrorTime = hm_lastErrorTime hm, lastSuccessTime = hm_lastSuccessTime hm\<rparr>)"

definition HM_reset :: "HealthMetrics \<Rightarrow> HealthMetrics" where
  "HM_reset hm =
     hm\<lparr>hm_messageCount := 0, hm_errorCount := 0, hm_processingTimes := [],
        hm_lastProcessingTime := 0, hm_lastErrorTime := 0, hm_lastSuccessTime := 0\<rparr>"

text \<open>
  A sequence of recordings, oldest first: each entry says whether the call is
  \<^verbatim>\<open>recordSuccess\<close> (\<open>True\<close>) or \<^verbatim>\<open>recordError\<close> (\<open>False\<close>), the latency it
  records and the world in which it is made.
\<close>

fun record_all :: "(bool \<times> rat \<times> 'm world_scheme) list \<Rightarrow> HealthMetrics \<Rightarrow> HealthMetrics" where
  "record_all [] hm = hm"
| "record_all ((ok, t, w) # rest) hm =
     record_all rest (if ok then recordSuccess t hm w else recordError t hm w)"

section \<open>Messages: \<^verbatim>\<open>src/agents/types.ts\<close>\<close>

text \<open>
  \<^verbatim>\<open>BaseMessageSchema\<close>: \<^verbatim>\<open>id\<close>, \<^verbatim>\<open>type\<close>, \<^verbatim>\<open>targetAgent\<close> are strings, the payload is
  opaque, \<^verbatim>\<open>priority\<close> and \<^verbatim>\<open>timestamp\<close> are optional numbers (\<open>None\<close> when absent).
\<close>

record 'p BaseAgentMessage =
  msg_id :: string
  msg_type :: string
  targetAgent :: string
  payload :: 'p
  priority :: "rat option"
  timestamp :: "rat option"

record 'p QueueItem =
  qi_message :: "'p BaseAgentMessage"
  addedAt :: int

datatype AgentState = IDLE | WORKING | ERROR

section \<open>The orchestrator's queue: \<^verbatim>\<open>PriorityMessageQueue\<close>\<close>

record 'p PriorityMessageQueue =
  pq_high :: "'p QueueItem list"
  pq_normal :: "'p QueueItem list"
  pq_low :: "'p QueueItem list"
  pq_isProcessing :: bool

definition PriorityMessageQueue_new :: "'p PriorityMessageQueue" where
  "PriorityMessageQueue_new = \<lparr>pq_high = [], pq_normal = [], pq_low = [], pq_isProcessing = False\<rparr>"

text \<open>
  \<^verbatim>\<open>message.priority && message.priority > 5\<close>: the left operand is falsy when the
  priority is absent or is the number 0.
\<close>

definition priority_above :: "'p BaseAgentMessage \<Rightarrow> rat \<Rightarrow> bool" where
  "priority_above message bound =
     (case priority message of None \<Rightarrow> False | Some p \<Rightarrow> p \<noteq> 0 \<and> p > bound)"

text \<open>
  \<^verbatim>\<open>Array.prototype.sort\<close> with the comparator \<^verbatim>\<open>a.addedAt - b.addedAt\<close> is a stable sort
  by ascending \<^verbatim>\<open>addedAt\<close>; so is \<^const>\<open>sort_key\<close>.
\<close>

definition sortQueues :: "'p PriorityMessageQueue \<Rightarrow> 'p PriorityMessageQueue" where
  "sortQueues q =
     q\<lparr>pq_high := sort_key addedAt (pq_high q),
       pq_normal := sort_key addedAt (pq_normal q),
       pq_low := sort_key addedAt (pq_low q)\<rparr>"

definition PMQ_enqueue ::
  "'p BaseAgentMessage \<Rightarrow> 'p PriorityMessageQueue \<Rightarrow> 'm world_scheme \<Rightarrow> 'p PriorityMessageQueue" where
  "PMQ_enqueue message q w =
     (let queueItem = \<lparr>qi_message = message, addedAt = clock w\<rparr>
      in sortQueues
           (if priority_above message 5 then q\<lparr>pq_high := pq_high q @ [queueItem]\<rparr>
            else if priority_above message 2 then q\<lparr>pq_normal := pq_normal q @ [queueItem]\<rparr>
            else q\<lparr>pq_low := pq_low q @ [queueItem]\<rparr>))"

text \<open>\<^verbatim>\<open>shift\<close> removes and returns the first element, or returns \<^verbatim>\<open>undefined\<close> on an empty array.\<close>

definition dequeueItem :: "'p PriorityMessageQueue \<Rightarrow> 'p QueueItem option \<times> 'p PriorityMessageQueue" where
  "dequeueItem q =
     (if length (pq_high q) > 0 then (Some (hd (pq_high q)), q\<lparr>pq_high := tl (pq_high q)\<rparr>)
      else if length (pq_normal q) > 0 then (Some (hd (pq_normal q)), q\<lparr>pq_normal := tl (pq_normal q)\<rparr>)
      else (case pq_low q of
              [] \<Rightarrow> (None, q)
            | item # rest \<Rightarrow> (Some item, q\<lparr>pq_low := rest\<rparr>)))"

definition PMQ_dequeue :: "'p PriorityMessageQueue \<Rightarrow> 'p BaseAgentMessage option \<times> 'p PriorityMessageQueue" where
  "PMQ_dequeue q = (case dequeueItem q of (item, q') \<Rightarrow> (map_option qi_message item, q'))"

definition PMQ_clear :: "'p PriorityMessageQueue \<Rightarrow> 'p PriorityMessageQueue" where
  "PMQ_clear q = q\<lparr>pq_high := [], pq_normal := [], pq_low := []\<rparr>"

definition PMQ_size :: "'p PriorityMessageQueue \<Rightarrow> nat" where
  "PMQ_size q = length (pq_high q) + length (pq_normal q) + length (pq_low q)"

definition PMQ_set_isProcessing :: "bool \<Rightarrow> 'p PriorityMessageQueue \<Rightarrow> 'p PriorityMessageQueue" where
  "PMQ_set_isProcessing v q = q\<lparr>pq_isProcessing := v\<rparr>"

text \<open>
  Drivers for statements about whole runs: a list of enqueues, each in its own world,
  and a queue drained by repeated \<^verbatim>\<open>dequeue\<close> until it returns \<^verbatim>\<open>undefined\<close>.
\<close>

fun enqueue_all ::
  "('p BaseAgentMessage \<times> 'm world_scheme) list \<Rightarrow> 'p PriorityMessageQueue \<Rightarrow> 'p PriorityMessageQueue" where
  "enqueue_all [] q = q"
| "enqueue_all ((m, w) # rest) q = enqueue_all rest (PMQ_enqueue m q w)"

lemma dequeueItem_size:
  "dequeueItem q = (item, q') \<Longrightarrow> Some m = map_option qi_message item \<Longrightarrow> PMQ_size q' < PMQ_size q"
  by (auto simp: dequeueItem_def PMQ_size_def split: if_splits list.splits)

function dequeue_all :: "'p PriorityMessageQueue \<Rightarrow> 'p BaseAgentMessage list" where
  "dequeue_all q =
     (case PMQ_dequeue q of
        (None, q') \<Rightarrow> []
      | (Some m, q') \<Rightarrow> m # dequeue_all q')"
  by pat_completeness auto

termination
  by (relation "measure PMQ_size")
     (auto simp: PMQ_dequeue_def split: prod.splits dest: dequeueItem_size)

section \<open>The per-agent queue: \<^verbatim>\<open>MessageQueue\<close>\<close>

text \<open>
  What a \<^verbatim>\<open>throw\<close> can carry in this layer: an \<^verbatim>\<open>AgentError\<close>, a plain \<^verbatim>\<open>Error\<close> with
  its message, the \<^verbatim>\<open>TypeError\<close> the runtime raises when a value that is not a function
  is called, or the value \<^verbatim>\<open>undefined\<close>.
\<close>

datatype js_error =
    AgentErr AgentError
  | PlainError string
  | TypeError string
  | ThrownUndefined

text \<open>
  The constructor is \<^verbatim>\<open>constructor(processCallback, maxSize = 100)\<close>.  The callback slot
  holds whatever the caller passed first: a function (\<open>Inr\<close>) or a value that is not
  callable, such as a number (\<open>Inl\<close>).  A callback receives the message and the world and
  returns the error it rejects with, if any, and the world in which it settles; it does
  not reach back into the queue that calls it.
\<close>

record ('p, 'm) MessageQueue =
  mq_queue :: "'p BaseAgentMessage list"
  mq_processing :: bool
  mq_maxSize :: int
  mq_processCallback ::
    "int + ('p BaseAgentMessage \<Rightarrow> 'm world_scheme \<Rightarrow> js_error option \<times> 'm world_scheme)"

definition MessageQueue_new ::
  "int + ('p BaseAgentMessage \<Rightarrow> 'm world_scheme \<Rightarrow> js_error option \<times> 'm world_scheme)
     \<Rightarrow> int option \<Rightarrow> ('p, 'm) MessageQueue" where
  "MessageQueue_new processCallback maxSize =
     \<lparr>mq_queue = [], mq_processing = False,
      mq_maxSize = (case maxSize of None \<Rightarrow> 100 | Some n \<Rightarrow> n),
      mq_processCallback = processCallback\<rparr>"

definition MQ_size :: "('p, 'm) MessageQueue \<Rightarrow> nat" where
  "MQ_size mq = length (mq_queue mq)"

definition MQ_dequeue :: "('p, 'm) MessageQueue \<Rightarrow> 'p BaseAgentMessage option \<times> ('p, 'm) MessageQueue" where
  "MQ_dequeue mq =
     (if length (mq_queue mq) = 0 then (None, mq)
      else (Some (hd (mq_queue mq)), mq\<lparr>mq_queue := tl (mq_queue mq)\<rparr>))"

definition MQ_clear :: "('p, 'm) MessageQueue \<Rightarrow> ('p, 'm) MessageQueue" where
  "MQ_clear mq = mq\<lparr>mq_queue := [], mq_processing := False\<rparr>"

definition setProcessing :: "bool \<Rightarrow> ('p, 'm) MessageQueue \<Rightarrow> ('p, 'm) MessageQueue" where
  "setProcessing st mq = mq\<lparr>mq_processing := st\<rparr>"

text \<open>\<^verbatim>\<open>findIndex\<close> and \<^verbatim>\<open>findLastIndex\<close> return \<open>-1\<close> when no element satisfies the test.\<close>

fun findIndex_from :: "('a \<Rightarrow> bool) \<Rightarrow> 'a list \<Rightarrow> int \<Rightarrow> int" where
  "findIndex_from P [] i = -1"
| "findIndex_from P (x # xs) i = (if P x then i else findIndex_from P xs (i + 1))"

definition findIndex :: "('a \<Rightarrow> bool) \<Rightarrow> 'a list \<Rightarrow> int" where
  "findIndex P xs = findIndex_from P xs 0"

definition findLastIndex :: "('a \<Rightarrow> bool) \<Rightarrow> 'a list \<Rightarrow> int" where
  "findLastIndex P xs =
     (let i = findIndex P (rev xs) in if i = -1 then -1 else int (length xs) - 1 - i)"

text \<open>\<^verbatim>\<open>xs.splice(i, 0, x)\<close> for \<open>0 \<le> i \<le> length xs\<close>.\<close>

definition splice_in :: "'a list \<Rightarrow> int \<Rightarrow> 'a \<Rightarrow> 'a list" where
  "splice_in xs i x = take (nat i) xs @ [x] @ drop (nat i) xs"

lemma MQ_dequeue_shorter:
  "mq_queue mq \<noteq> [] \<Longrightarrow> (r, mq2) = MQ_dequeue (mq\<lparr>mq_processing := b\<rparr>) \<Longrightarrow>
     length (mq_queue mq2) < length (mq_queue mq)"
  by (auto simp: MQ_dequeue_def)

function processNextMessage ::
  "('p, 'm) MessageQueue \<Rightarrow> 'm world_scheme \<Rightarrow> (js_error + unit) \<times> ('p, 'm) MessageQueue \<times> 'm world_scheme" where
  "processNextMessage mq w =
     (if length (mq_queue mq) = 0 then (Inr (), mq\<lparr>mq_processing := False\<rparr>, w)
      else
        (case MQ_dequeue (mq\<lparr>mq_processing := True\<rparr>) of
           (None, mq2) \<Rightarrow> processNextMessage mq2 w
         | (Some message, mq2) \<Rightarrow>
             (case mq_processCallback mq2 of
                Inl v \<Rightarrow>
                  (Inl (TypeError ''this.processCallback is not a function''),
                   mq2\<lparr>mq_processing := False\<rparr>, w)
              | Inr callback \<Rightarrow>
                  (case callback message w of
                     (Some error, w') \<Rightarrow> (Inl error, mq2\<lparr>mq_processing := False\<rparr>, w')
                   | (None, w') \<Rightarrow> processNextMessage mq2 w'))))"
  by pat_completeness auto
termination
  by (relation "measure (\<lambda>(mq, w). length (mq_queue mq))")
     (auto dest: MQ_dequeue_shorter)

definition msg_priority :: "'p BaseAgentMessage \<Rightarrow> rat" where
  "msg_priority m = (case priority m of None \<Rightarrow> 0 | Some p \<Rightarrow> p)"

definition MQ_enqueue ::
  "'p BaseAgentMessage \<Rightarrow> ('p, 'm) MessageQueue \<Rightarrow> 'm world_scheme
     \<Rightarrow> (js_error + unit) \<times> ('p, 'm) MessageQueue \<times> 'm world_scheme" where
  "MQ_enqueue message mq w =
     (if int (length (mq_queue mq)) \<ge> mq_maxSize mq
      then (Inl (AgentErr (AgentError_new (Some QUEUE_FULL) ''Queue is full'')), mq, w)
      else
        (let prio = msg_priority message;
             insertIndex = findIndex (\<lambda>m. msg_priority m < prio) (mq_queue mq);
             queue' =
               (if insertIndex = -1
                then (let lastSamePriorityIndex = findLastIndex (\<lambda>m. msg_priority m = prio) (mq_queue mq)
                      in if lastSamePriorityIndex = -1 then mq_queue mq @ [message]
                         else splice_in (mq_queue mq) (lastSamePriorityIndex + 1) message)
                else splice_in (mq_queue mq) insertIndex message);
             mq1 = mq\<lparr>mq_queue := queue'\<rparr>
         in if \<not> mq_processing mq1 then processNextMessage mq1 w else (Inr (), mq1, w)))"

section \<open>Agents: \<^verbatim>\<open>src/agents/BaseAgent.ts\<close>\<close>

text \<open>\<^verbatim>\<open>a ?? d\<close>: the default \<open>d\<close> when \<open>a\<close> is absent.\<close>

definition nullish :: "'a option \<Rightarrow> 'a \<Rightarrow> 'a" where
  "nullish a d = (case a of None \<Rightarrow> d | Some v \<Rightarrow> v)"

record AgentConfig =
  ac_name :: string
  ac_maxRetries :: "int option"
  ac_maxQueueSize :: "int option"
  ac_maxConcurrentTasks :: "int option"
  ac_timeoutMs :: "int option"

record ('p, 'm, 'c) BaseAgent =
  ba_name :: string
  ba_state :: AgentState
  ba_lastActiveTime :: int
  ba_maxRetries :: int
  ba_messageQueue :: "('p, 'm) MessageQueue"
  ba_config :: "'c AgentConfig_scheme"

text \<open>
  The constructor fills the defaults (3 retries, queue size 1000, one task, 30000 ms) and
  builds the queue with \<^verbatim>\<open>new MessageQueue(this.config.maxQueueSize)\<close>: a single
  argument, which the queue's constructor binds to its first parameter, the callback;
  the second parameter, the size, takes its default.
\<close>

definition BaseAgent_new :: "'c AgentConfig_scheme \<Rightarrow> 'm world_scheme \<Rightarrow> ('p, 'm, 'c) BaseAgent" where
  "BaseAgent_new config w =
     (let maxRetries = nullish (ac_maxRetries config) 3;
          maxQueueSize = nullish (ac_maxQueueSize config) 1000;
          maxConcurrentTasks = nullish (ac_maxConcurrentTasks config) 1;
          timeoutMs = nullish (ac_timeoutMs config) 30000;
          merged = config\<lparr>ac_maxRetries := Some maxRetries, ac_maxQueueSize := Some maxQueueSize,
                          ac_maxConcurrentTasks := Some maxConcurrentTasks,
                          ac_timeoutMs := Some timeoutMs\<rparr>
      in \<lparr>ba_name = ac_name config, ba_state = IDLE, ba_lastActiveTime = clock w,
          ba_maxRetries = maxRetries,
          ba_messageQueue = MessageQueue_new (Inl maxQueueSize) None,
          ba_config = merged\<rparr>)"

text \<open>
  Schema validation is the \<^verbatim>\<open>zod\<close> library's: \<open>parse\<close> returns the parsed message, or
  fails with a \<^verbatim>\<open>ZodError\<close> carrying a text (\<open>Inl (Some text)\<close>) or with something else
  (\<open>Inl None\<close>).
\<close>

definition BA_validateMessage ::
  "('raw \<Rightarrow> string option + 'p BaseAgentMessage) \<Rightarrow> 'raw \<Rightarrow> AgentError + 'p BaseAgentMessage" where
  "BA_validateMessage parse message =
     (case parse message of
        Inr parsed \<Rightarrow> Inr parsed
      | Inl (Some text) \<Rightarrow> Inl (AgentError_new (Some VALIDATION) (''Invalid message format: '' @ text))
      | Inl None \<Rightarrow> Inl (AgentError_new (Some VALIDATION) ''Invalid message format''))"

definition enqueueMessage ::
  "('raw \<Rightarrow> string option + 'p BaseAgentMessage) \<Rightarrow> 'raw \<Rightarrow> ('p, 'm, 'c) BaseAgent \<Rightarrow> 'm world_scheme
     \<Rightarrow> (js_error + unit) \<times> ('p, 'm, 'c) BaseAgent \<times> 'm world_scheme" where
  "enqueueMessage parse message agent w =
     (case BA_validateMessage parse message of
        Inl err \<Rightarrow> (Inl (AgentErr err), agent, w)
      | Inr validatedMessage \<Rightarrow>
          (case MQ_enqueue validatedMessage (ba_messageQueue agent) w of
             (r, mq', w') \<Rightarrow> (r, agent\<lparr>ba_messageQueue := mq'\<rparr>, w')))"

section \<open>Retry helper: \<^verbatim>\<open>withRetry\<close> in \<^verbatim>\<open>src/agents/utils.ts\<close>\<close>










section \<open>Orchestrator: \<^verbatim>\<open>src/agents/OrchestratorAgent.ts\<close>\<close>

text \<open>
  A \<^verbatim>\<open>Map\<close> is an association list with distinct keys in insertion order:
  \<^verbatim>\<open>has\<close>, \<^verbatim>\<open>get\<close>, \<^verbatim>\<open>set\<close> (replace in place, or append) and \<^verbatim>\<open>size\<close>.
\<close>

definition Map_has :: "('k \<times> 'v) list \<Rightarrow> 'k \<Rightarrow> bool" where
  "Map_has m k = (map_of m k \<noteq> None)"

definition Map_get :: "('k \<times> 'v) list \<Rightarrow> 'k \<Rightarrow> 'v option" where
  "Map_get m k = map_of m k"

definition Map_set :: "'k \<Rightarrow> 'v \<Rightarrow> ('k \<times> 'v) list \<Rightarrow> ('k \<times> 'v) list" where
  "Map_set k v m = AList.update k v m"

definition Map_size :: "('k \<times> 'v) list \<Rightarrow> nat" where
  "Map_size m = length m"

record OrchestratorConfig = AgentConfig +
  oc_maxConcurrentMessages :: "int option"
  oc_routingTimeout :: "int option"
  oc_retryDelay :: "int option"

record AgentStateInfo =
  asi_state :: AgentState
  asi_lastActiveTime :: int
  asi_errorCount :: int
  asi_circuitBreaker :: CircuitBreaker
  asi_healthMetrics :: HealthMetrics

text \<open>
  The orchestrator's own fields: the merged configuration, the two maps keyed by agent
  name, and the shared queue.  \<open>'ag\<close> is the type of agent handles.
\<close>

record ('p, 'ag) OrchestratorAgent =
  oa_config :: OrchestratorConfig
  oa_agents :: "(string \<times> 'ag) list"
  oa_agentStates :: "(string \<times> AgentStateInfo) list"
  oa_messageQueue :: "'p PriorityMessageQueue"

text \<open>
  \<^verbatim>\<open>validateMessage\<close> of \<^verbatim>\<open>utils.ts\<close>, applied to the orchestrator's schema; \<open>parse\<close> is the
  schema's \<^verbatim>\<open>parseAsync\<close> (see \<^const>\<open>BA_validateMessage\<close>).
\<close>

definition validateMessage ::
  "('raw \<Rightarrow> string option + 'p BaseAgentMessage) \<Rightarrow> 'raw \<Rightarrow> AgentError + 'p BaseAgentMessage" where
  "validateMessage parse message =
     (case parse message of
        Inr parsed \<Rightarrow> Inr parsed
      | Inl (Some text) \<Rightarrow>
          Inl (AgentError_new3 (Some VALIDATION) (''Invalid message format: '' @ text) (Some text))
      | Inl None \<Rightarrow> Inl (AgentError_new3 (Some VALIDATION) ''Invalid message format'' (None :: string option)))"

text \<open>
  \<^verbatim>\<open>processMessage\<close>.  The third component of the result tells whether the method calls
  \<^verbatim>\<open>processQueuedMessages\<close>, which it does without awaiting it.
\<close>

definition OA_processMessage ::
  "('raw \<Rightarrow> string option + 'p BaseAgentMessage) \<Rightarrow> 'raw \<Rightarrow> ('p, 'ag) OrchestratorAgent \<Rightarrow> 'm world_scheme
     \<Rightarrow> (AgentError + unit) \<times> ('p, 'ag) OrchestratorAgent \<times> bool" where
  "OA_processMessage parse message oa w =
     (case validateMessage parse message of
        Inl err \<Rightarrow> (Inl err, oa, False)
      | Inr validatedMessage \<Rightarrow>
          if int (PMQ_size (oa_messageQueue oa)) \<ge> nullish (ac_maxQueueSize (oa_config oa)) 1000
          then (Inl (AgentError_new3 AgentErrorType_OPERATION ''Message queue is full''
                       (PMQ_size (oa_messageQueue oa))),
                oa, False)
          else
            (let q' = PMQ_enqueue validatedMessage (oa_messageQueue oa) w
             in (Inr (), oa\<lparr>oa_messageQueue := q'\<rparr>, \<not> pq_isProcessing q')))"

text \<open>The entry of \<^verbatim>\<open>processQueuedMessages\<close>: return at once when a drain is running, else take the flag.\<close>

definition processQueuedMessages_enter ::
  "('p, 'ag) OrchestratorAgent \<Rightarrow> ('p, 'ag) OrchestratorAgent option" where
  "processQueuedMessages_enter oa =
     (if pq_isProcessing (oa_messageQueue oa) then None
      else Some (oa\<lparr>oa_messageQueue := PMQ_set_isProcessing True (oa_messageQueue oa)\<rparr>))"

definition isAgentHealthy :: "string \<Rightarrow> ('p, 'ag) OrchestratorAgent \<Rightarrow> 'm world_scheme \<Rightarrow> bool" where
  "isAgentHealthy agentName oa w =
     (case Map_get (oa_agentStates oa) agentName of
        None \<Rightarrow> False
      | Some stateInfo \<Rightarrow>
          (let circuitState = getState (asi_circuitBreaker stateInfo);
               maxInactiveTime = nullish (ac_timeoutMs (oa_config oa)) 30000;
               currentTime = clock w
           in circuitState \<noteq> OPEN \<and>
              currentTime - asi_lastActiveTime stateInfo < maxInactiveTime \<and>
              asi_state stateInfo \<noteq> ERROR))"

text \<open>
  One turn of the drain loop of \<^verbatim>\<open>processQueuedMessages\<close>, up to the point where a
  message is handed to the routing call.  The loop ends when the queue is empty
  (\<open>LoopEnds\<close>); a message for an unknown agent is skipped; a message for an unhealthy
  agent is put back or dropped; otherwise the message goes to routing (\<open>Route\<close>),
  whose timeout race is not part of this model.
\<close>

datatype 'p drain_turn =
    LoopEnds
  | SkippedUnknownTarget
  | Requeued
  | Dropped
  | Route "'p BaseAgentMessage"

definition drain_turn ::
  "('p, 'ag) OrchestratorAgent \<Rightarrow> 'm world_scheme \<Rightarrow> 'p drain_turn \<times> ('p, 'ag) OrchestratorAgent" where
  "drain_turn oa w =
     (if \<not> PMQ_size (oa_messageQueue oa) > 0 then (LoopEnds, oa)
      else
        (case PMQ_dequeue (oa_messageQueue oa) of
           (None, q1) \<Rightarrow> (LoopEnds, oa\<lparr>oa_messageQueue := q1\<rparr>)
         | (Some message, q1) \<Rightarrow>
             (case (Map_get (oa_agents oa) (targetAgent message),
                    Map_get (oa_agentStates oa) (targetAgent message)) of
                (Some agent, Some stateInfo) \<Rightarrow>
                  if \<not> isAgentHealthy (targetAgent message) oa w then
                    (if asi_errorCount stateInfo < nullish (ac_maxRetries (oa_config oa)) 3
                     then (Requeued, oa\<lparr>oa_messageQueue := PMQ_enqueue message q1 w\<rparr>)
                     else (Dropped, oa\<lparr>oa_messageQueue := q1\<rparr>))
                  else (Route message, oa\<lparr>oa_messageQueue := q1\<rparr>)
              | _ \<Rightarrow> (SkippedUnknownTarget, oa\<lparr>oa_messageQueue := q1\<rparr>))))"

section \<open>Registry: \<^verbatim>\<open>AgentRegistry\<close>\<close>

text \<open>
  What the registry reads from an agent handle: its state and the time it was last
  active.  A handle that is \<^verbatim>\<open>null\<close> or \<^verbatim>\<open>undefined\<close> is \<open>None\<close>.
\<close>

record Agent =
  agent_state :: AgentState
  agent_lastActiveTime :: int

record AgentHealth =
  ah_name :: string
  ah_state :: AgentState
  ah_lastActive :: "int option"

record RegistryConfig =
  rc_maxAgents :: "int option"
  rc_healthCheckIntervalMs :: "int option"

record AgentRegistry =
  ar_agents :: "(string \<times> Agent) list"
  ar_maxAgents :: int
  ar_healthCheckInterval :: int
  ar_lastHealthCheck :: "(string \<times> AgentHealth) list"

definition AgentRegistry_new :: "RegistryConfig option \<Rightarrow> AgentRegistry" where
  "AgentRegistry_new config =
     \<lparr>ar_agents = [],
      ar_maxAgents = nullish (case config of None \<Rightarrow> None | Some c \<Rightarrow> rc_maxAgents c) 10,
      ar_healthCheckInterval =
        nullish (case config of None \<Rightarrow> None | Some c \<Rightarrow> rc_healthCheckIntervalMs c) 1000,
      ar_lastHealthCheck = []\<rparr>"

definition AR_registerAgent ::
  "string \<Rightarrow> Agent option \<Rightarrow> AgentRegistry \<Rightarrow> (js_error + unit) \<times> AgentRegistry" where
  "AR_registerAgent name agent ar =
     (case agent of
        None \<Rightarrow> (Inl (PlainError ''Invalid agent''), ar)
      | Some a \<Rightarrow>
          if Map_has (ar_agents ar) name
          then (Inl (PlainError (''Agent with name '' @ name @ '' already exists'')), ar)
          else if int (Map_size (ar_agents ar)) \<ge> ar_maxAgents ar
          then (Inl (PlainError ''Maximum number of agents reached''), ar)
          else (Inr (),
                ar\<lparr>ar_agents := Map_set name a (ar_agents ar),
                   ar_lastHealthCheck :=
                     Map_set name \<lparr>ah_name = name, ah_state = agent_state a,
                                   ah_lastActive = Some (agent_lastActiveTime a)\<rparr>
                       (ar_lastHealthCheck ar)\<rparr>))"

definition AR_getAgent :: "string \<Rightarrow> AgentRegistry \<Rightarrow> Agent option" where
  "AR_getAgent name ar = Map_get (ar_agents ar) name"

section \<open>Concrete inputs used in evaluated examples\<close>

text \<open>
  An operation that always rejects, five milliseconds after it is called; a schema parser
  on inputs that are either a well-formed message or malformed (for which the schema
  reports \<^verbatim>\<open>Required\<close>); a message; an orchestrator whose queue limit is 1 and whose queue
  holds one message; a breaker that opened at time 210.
\<close>

definition failing_operation :: "world \<Rightarrow> (string + unit) \<times> world" where
  "failing_operation w = (Inl ''unavailable'', w\<lparr>clock := clock w + 5\<rparr>)"

definition schema_parse :: "unit BaseAgentMessage option \<Rightarrow> string option + unit BaseAgentMessage" where
  "schema_parse raw = (case raw of None \<Rightarrow> Inl (Some ''Required'') | Some m \<Rightarrow> Inr m)"

definition sample_message :: "unit BaseAgentMessage" where
  "sample_message =
     \<lparr>msg_id = ''m1'', msg_type = ''LINT_REQUEST'', targetAgent = ''eslint'', payload = (),
      priority = Some 3, timestamp = None\<rparr>"

definition full_orchestrator :: "(unit, Agent) OrchestratorAgent" where
  "full_orchestrator =
     \<lparr>oa_config = \<lparr>ac_name = ''orchestrator'', ac_maxRetries = Some 3, ac_maxQueueSize = Some 1,
                    ac_maxConcurrentTasks = Some 1, ac_timeoutMs = Some 30000,
                    oc_maxConcurrentMessages = None, oc_routingTimeout = None, oc_retryDelay = None\<rparr>,
      oa_agents = [], oa_agentStates = [],
      oa_messageQueue =
        \<lparr>pq_high = [], pq_normal = [\<lparr>qi_message = sample_message, addedAt = 100\<rparr>], pq_low = [],
         pq_isProcessing = True\<rparr>\<rparr>"

definition open_breaker :: CircuitBreaker where
  "open_breaker =
     \<lparr>cb_config = \<lparr>failureThreshold = 3, resetTimeout = 30000, halfOpenTimeout = 15000\<rparr>,
      cb_state = OPEN, cb_failures = 3, cb_lastFailureTime = 210, cb_lastStateChange = 210\<rparr>"

text \<open>Twenty recordings, eleven successes and nine errors, into a fresh collector.\<close>

definition twenty_recordings :: "(bool \<times> rat \<times> world) list" where
  "twenty_recordings =
     replicate 11 (True, 12, \<lparr>clock = 1000\<rparr>) @ replicate 9 (False, 30, \<lparr>clock = 2000\<rparr>)"

definition eleven_of_twenty :: HealthMetrics where
  "eleven_of_twenty = record_all twenty_recordings HealthMetrics_new"

section \<open>Circuit breaker: properties\<close>

lemma execute_closed_failure:
  assumes "cb_state cb = CLOSED" and "fst (operation w) = Inl e"
  shows "snd (execute operation ctx cb w) = (onFailure cb (snd (operation w)), snd (operation w))"
  using assms by (cases "operation w") (simp add: execute_def checkState_def)

lemma onFailure_below:
  assumes "cb_failures cb + 1 < failureThreshold (cb_config cb)"
  shows "cb_state (onFailure cb w) = cb_state cb"
    and "cb_failures (onFailure cb w) = cb_failures cb + 1"
    and "cb_config (onFailure cb w) = cb_config cb"
  using assms by (simp_all add: onFailure_def Let_def)

lemma onFailure_reached:
  assumes "cb_failures cb + 1 \<ge> failureThreshold (cb_config cb)"
  shows "cb_state (onFailure cb w) = OPEN"
    and "cb_lastStateChange (onFailure cb w) = clock w"
  using assms by (simp_all add: onFailure_def transitionTo_def Let_def)

lemma execute_open_rejects:
  assumes "cb_state cb = OPEN"
    and "clock w - cb_lastStateChange cb < resetTimeout (cb_config cb)"
  shows "execute operation ctx cb w =
           (Inl (AgentError_new AgentErrorType_OPERATION ''Circuit breaker is OPEN''), cb, w)"
  using assms by (simp add: execute_def checkState_def AgentError_new3_def)

lemma checkState_open_elapsed:
  assumes "cb_state cb = OPEN"
    and "clock w - cb_lastStateChange cb \<ge> resetTimeout (cb_config cb)"
  shows "checkState cb w = Inr (transitionTo HALF_OPEN cb w)"
    and "cb_state (transitionTo HALF_OPEN cb w) = HALF_OPEN"
    and "cb_lastStateChange (transitionTo HALF_OPEN cb w) = clock w"
  using assms by (simp_all add: checkState_def transitionTo_def)

lemma execute_passes:
  assumes "checkState cb w = Inr cb1"
  shows "snd (snd (execute operation ctx cb w)) = snd (operation w)"
    and "fst (operation w) = Inr r \<Longrightarrow>
           execute operation ctx cb w = (Inr r, onSuccess cb1 (snd (operation w)), snd (operation w))"
    and "fst (operation w) = Inl e \<Longrightarrow>
           fst (snd (execute operation ctx cb w)) = onFailure cb1 (snd (operation w))"
  using assms by (cases "operation w"; auto simp: execute_def split: sum.splits)+

lemma onSuccess_closed:
  assumes "cb_state cb = HALF_OPEN \<or> cb_state cb = CLOSED"
  shows "cb_state (onSuccess cb w) = CLOSED" and "cb_failures (onSuccess cb w) = 0"
  using assms by (auto simp: onSuccess_def transitionTo_def)

lemma checkState_half_open:
  assumes "cb_state cb = HALF_OPEN"
  shows "\<exists>cb1. checkState cb w = Inr cb1 \<and> (cb_state cb1 = HALF_OPEN \<or> cb_state cb1 = CLOSED)"
  using assms by (simp add: checkState_def transitionTo_def)

text \<open>
  Claim C1 (circuit breaker lifecycle).  With \<open>failureThreshold = 3\<close> and a breaker that
  is CLOSED with no recorded failure, three consecutive calls of \<open>execute\<close> whose
  operations fail leave the breaker CLOSED after the first and the second call and OPEN
  after the third (the worlds \<open>w1\<close>, \<open>w2\<close>, \<open>w3\<close> in which the calls start are
  arbitrary).  While the breaker is OPEN and less than \<open>resetTimeout\<close> has passed since
  it opened, \<open>execute\<close> fails and returns the breaker and the world it was given,
  whatever the operation is: the operation is not invoked.  Once \<open>resetTimeout\<close> has
  passed, the state check of the next call moves the breaker to HALF_OPEN and the
  operation is invoked on that breaker: the world after the call is the one the operation
  leaves; if the operation succeeds, the call returns its result and the breaker it
  returns is CLOSED with a failure counter of 0; if the operation fails, the call fails
  and the breaker it returns has one more failure, and is OPEN again when the counter
  has reached the threshold and HALF_OPEN otherwise.  An operation that succeeds on a
  breaker that is HALF_OPEN when the call starts leaves it CLOSED with a failure counter
  of 0 as well.
\<close>

theorem circuit_breaker_lifecycle:
  fixes op1 op2 op3 operation :: "'m world_scheme \<Rightarrow> ('e + 'a) \<times> 'm world_scheme"
  shows
  "(failureThreshold (cb_config cb0) = 3 \<and> cb_state cb0 = CLOSED \<and> cb_failures cb0 = 0 \<and>
    fst (op1 w1) = Inl e1 \<and> fst (op2 w2) = Inl e2 \<and> fst (op3 w3) = Inl e3 \<longrightarrow>
      (let (r1, cb1, w1') = execute op1 c1 cb0 w1;
           (r2, cb2, w2') = execute op2 c2 cb1 w2;
           (r3, cb3, w3') = execute op3 c3 cb2 w3
       in cb_state cb1 = CLOSED \<and> cb_state cb2 = CLOSED \<and> cb_state cb3 = OPEN \<and>
          cb_failures cb3 = 3 \<and> cb_lastStateChange cb3 = clock w3' \<and>
          w1' = snd (op1 w1) \<and> w2' = snd (op2 w2) \<and> w3' = snd (op3 w3)))
   \<and> (cb_state cb = OPEN \<and> clock w - cb_lastStateChange cb < resetTimeout (cb_config cb) \<longrightarrow>
        (\<exists>err. execute operation ctx cb w = (Inl err, cb, w)))
   \<and> (cb_state cb = OPEN \<and> clock w - cb_lastStateChange cb \<ge> resetTimeout (cb_config cb) \<longrightarrow>
        (\<exists>cbh. checkState cb w = Inr cbh \<and> cb_state cbh = HALF_OPEN \<and>
               snd (snd (execute operation ctx cb w)) = snd (operation w) \<and>
               (\<forall>r. fst (operation w) = Inr r \<longrightarrow>
                  execute operation ctx cb w
                    = (Inr r, onSuccess cbh (snd (operation w)), snd (operation w)) \<and>
                  cb_state (fst (snd (execute operation ctx cb w))) = CLOSED \<and>
                  cb_failures (fst (snd (execute operation ctx cb w))) = 0 \<and>
                  cb_lastStateChange (fst (snd (execute operation ctx cb w)))
                    = clock (snd (operation w))) \<and>
               (\<forall>err. fst (operation w) = Inl err \<longrightarrow>
                  isl (fst (execute operation ctx cb w)) \<and>
                  fst (snd (execute operation ctx cb w)) = onFailure cbh (snd (operation w)) \<and>
                  cb_failures (fst (snd (execute operation ctx cb w))) = cb_failures cb + 1 \<and>
                  cb_state (fst (snd (execute operation ctx cb w)))
                    = (if cb_failures cb + 1 \<ge> failureThreshold (cb_config cb)
                       then OPEN else HALF_OPEN))))
   \<and> (cb_state cb = HALF_OPEN \<and> fst (operation w) = Inr r \<longrightarrow>
        (\<exists>cb1. checkState cb w = Inr cb1 \<and>
               execute operation ctx cb w
                 = (Inr r, onSuccess cb1 (snd (operation w)), snd (operation w)) \<and>
               cb_state (fst (snd (execute operation ctx cb w))) = CLOSED \<and>
               cb_failures (fst (snd (execute operation ctx cb w))) = 0))"
proof (intro conjI impI)
  assume a: "failureThreshold (cb_config cb0) = 3 \<and> cb_state cb0 = CLOSED \<and> cb_failures cb0 = 0 \<and>
    fst (op1 w1) = Inl e1 \<and> fst (op2 w2) = Inl e2 \<and> fst (op3 w3) = Inl e3"
  define cb1 where "cb1 = onFailure cb0 (snd (op1 w1))"
  define cb2 where "cb2 = onFailure cb1 (snd (op2 w2))"
  define cb3 where "cb3 = onFailure cb2 (snd (op3 w3))"
  have s1: "cb_state cb1 = CLOSED" "cb_failures cb1 = 1" "cb_config cb1 = cb_config cb0"
    using a onFailure_below [of cb0 "snd (op1 w1)"] by (simp_all add: cb1_def)
  have s2: "cb_state cb2 = CLOSED" "cb_failures cb2 = 2" "cb_config cb2 = cb_config cb0"
    using a s1 onFailure_below [of cb1 "snd (op2 w2)"] by (simp_all add: cb2_def)
  have s3: "cb_state cb3 = OPEN" "cb_lastStateChange cb3 = clock (snd (op3 w3))"
    using a s2 onFailure_reached [of cb2 "snd (op3 w3)"] by (simp_all add: cb3_def)
  have f3: "cb_failures cb3 = 3"
    using a s2 by (simp add: cb3_def onFailure_def transitionTo_def Let_def)
  have e1: "snd (execute op1 c1 cb0 w1) = (cb1, snd (op1 w1))"
    using a execute_closed_failure [of cb0 op1 w1 e1 c1] by (simp add: cb1_def)
  have e2: "snd (execute op2 c2 cb1 w2) = (cb2, snd (op2 w2))"
    using a s1 execute_closed_failure [of cb1 op2 w2 e2 c2] by (simp add: cb2_def)
  have e3: "snd (execute op3 c3 cb2 w3) = (cb3, snd (op3 w3))"
    using a s2 execute_closed_failure [of cb2 op3 w3 e3 c3] by (simp add: cb3_def)
  obtain r1 where x1: "execute op1 c1 cb0 w1 = (r1, cb1, snd (op1 w1))"
    using e1 by (cases "execute op1 c1 cb0 w1") simp
  obtain r2 where x2: "execute op2 c2 cb1 w2 = (r2, cb2, snd (op2 w2))"
    using e2 by (cases "execute op2 c2 cb1 w2") simp
  obtain r3 where x3: "execute op3 c3 cb2 w3 = (r3, cb3, snd (op3 w3))"
    using e3 by (cases "execute op3 c3 cb2 w3") simp
  show "let (r1, cb1, w1') = execute op1 c1 cb0 w1;
            (r2, cb2, w2') = execute op2 c2 cb1 w2;
            (r3, cb3, w3') = execute op3 c3 cb2 w3
        in cb_state cb1 = CLOSED \<and> cb_state cb2 = CLOSED \<and> cb_state cb3 = OPEN \<and>
           cb_failures cb3 = 3 \<and> cb_lastStateChange cb3 = clock w3' \<and>
           w1' = snd (op1 w1) \<and> w2' = snd (op2 w2) \<and> w3' = snd (op3 w3)"
    using s1 s2 s3 f3 by (simp add: x1 x2 x3)
next
  assume "cb_state cb = OPEN \<and> clock w - cb_lastStateChange cb < resetTimeout (cb_config cb)"
  then show "\<exists>err. execute operation ctx cb w = (Inl err, cb, w)"
    using execute_open_rejects [of cb w operation ctx] by blast
next
  assume a: "cb_state cb = OPEN \<and> clock w - cb_lastStateChange cb \<ge> resetTimeout (cb_config cb)"
  let ?cbh = "transitionTo HALF_OPEN cb w"
  let ?w' = "snd (operation w)"
  have c: "checkState cb w = Inr ?cbh" and h: "cb_state ?cbh = HALF_OPEN"
    using a checkState_open_elapsed [of cb w] by simp_all
  have hf: "cb_failures ?cbh = cb_failures cb" "cb_config ?cbh = cb_config cb"
    by (simp_all add: transitionTo_def)
  have world: "snd (snd (execute operation ctx cb w)) = ?w'"
    using execute_passes(1) [OF c, where operation = operation and ctx = ctx] .
  have ok: "execute operation ctx cb w = (Inr r, onSuccess ?cbh ?w', ?w') \<and>
            cb_state (fst (snd (execute operation ctx cb w))) = CLOSED \<and>
            cb_failures (fst (snd (execute operation ctx cb w))) = 0 \<and>
            cb_lastStateChange (fst (snd (execute operation ctx cb w))) = clock ?w'"
    if "fst (operation w) = Inr r" for r
  proof -
    have e: "execute operation ctx cb w = (Inr r, onSuccess ?cbh ?w', ?w')"
      using that execute_passes(2) [OF c, where operation = operation and ctx = ctx and r = r]
      by simp
    have "cb_state (onSuccess ?cbh ?w') = CLOSED" "cb_failures (onSuccess ?cbh ?w') = 0"
      "cb_lastStateChange (onSuccess ?cbh ?w') = clock ?w'"
      using h by (simp_all add: onSuccess_def transitionTo_def)
    then show ?thesis by (simp add: e)
  qed
  have ko: "isl (fst (execute operation ctx cb w)) \<and>
            fst (snd (execute operation ctx cb w)) = onFailure ?cbh ?w' \<and>
            cb_failures (fst (snd (execute operation ctx cb w))) = cb_failures cb + 1 \<and>
            cb_state (fst (snd (execute operation ctx cb w)))
              = (if cb_failures cb + 1 \<ge> failureThreshold (cb_config cb) then OPEN else HALF_OPEN)"
    if "fst (operation w) = Inl err" for err
  proof -
    have e: "fst (snd (execute operation ctx cb w)) = onFailure ?cbh ?w'"
      using that execute_passes(3) [OF c, where operation = operation and ctx = ctx and e = err]
      by simp
    have i: "isl (fst (execute operation ctx cb w))"
      using that c by (cases "operation w") (simp add: execute_def)
    have "cb_failures (onFailure ?cbh ?w') = cb_failures cb + 1"
      "cb_state (onFailure ?cbh ?w')
         = (if cb_failures cb + 1 \<ge> failureThreshold (cb_config cb) then OPEN else HALF_OPEN)"
      using h hf by (simp_all add: onFailure_def transitionTo_def Let_def)
    then show ?thesis using i by (simp add: e)
  qed
  show "\<exists>cbh. checkState cb w = Inr cbh \<and> cb_state cbh = HALF_OPEN \<and>
               snd (snd (execute operation ctx cb w)) = snd (operation w) \<and>
               (\<forall>r. fst (operation w) = Inr r \<longrightarrow>
                  execute operation ctx cb w
                    = (Inr r, onSuccess cbh (snd (operation w)), snd (operation w)) \<and>
                  cb_state (fst (snd (execute operation ctx cb w))) = CLOSED \<and>
                  cb_failures (fst (snd (execute operation ctx cb w))) = 0 \<and>
                  cb_lastStateChange (fst (snd (execute operation ctx cb w)))
                    = clock (snd (operation w))) \<and>
               (\<forall>err. fst (operation w) = Inl err \<longrightarrow>
                  isl (fst (execute operation ctx cb w)) \<and>
                  fst (snd (execute operation ctx cb w)) = onFailure cbh (snd (operation w)) \<and>
                  cb_failures (fst (snd (execute operation ctx cb w))) = cb_failures cb + 1 \<and>
                  cb_state (fst (snd (execute operation ctx cb w)))
                    = (if cb_failures cb + 1 \<ge> failureThreshold (cb_config cb)
                       then OPEN else HALF_OPEN))"
    using c h world ok ko by blast
next
  assume a: "cb_state cb = HALF_OPEN \<and> fst (operation w) = Inr r"
  then obtain cb1 where c: "checkState cb w = Inr cb1"
    and s: "cb_state cb1 = HALF_OPEN \<or> cb_state cb1 = CLOSED"
    using checkState_half_open [of cb w] by blast
  have e: "execute operation ctx cb w = (Inr r, onSuccess cb1 (snd (operation w)), snd (operation w))"
    using a execute_passes(2) [OF c, where operation = operation and ctx = ctx and r = r] by simp
  show "\<exists>cb1. checkState cb w = Inr cb1 \<and>
               execute operation ctx cb w
                 = (Inr r, onSuccess cb1 (snd (operation w)), snd (operation w)) \<and>
               cb_state (fst (snd (execute operation ctx cb w))) = CLOSED \<and>
               cb_failures (fst (snd (execute operation ctx cb w))) = 0"
    using c e onSuccess_closed [OF s, of "snd (operation w)"] by simp
qed

theorem circuit_breaker_lifecycle_witness:
  "(let cfg = \<lparr>failureThreshold = 3, resetTimeout = 30000, halfOpenTimeout = 15000\<rparr>;
        fails = (\<lambda>w::world. (Inl ''boom'' :: string + nat, w\<lparr>clock := clock w + 10\<rparr>));
        works = (\<lambda>w::world. (Inr 7 :: string + nat, w\<lparr>clock := clock w + 10\<rparr>));
        cb0 = CircuitBreaker_new cfg \<lparr>clock = 0\<rparr>;
        cbo = \<lparr>cb_config = cfg, cb_state = OPEN, cb_failures = 3,
               cb_lastFailureTime = 210, cb_lastStateChange = 210\<rparr>;
        cbh = \<lparr>cb_config = cfg, cb_state = HALF_OPEN, cb_failures = 3,
               cb_lastFailureTime = 210, cb_lastStateChange = 30210\<rparr>
    in (failureThreshold (cb_config cb0) = 3 \<and> cb_state cb0 = CLOSED \<and> cb_failures cb0 = 0 \<and>
        fst (fails \<lparr>clock = 0\<rparr>) = Inl ''boom'' \<and> fst (fails \<lparr>clock = 100\<rparr>) = Inl ''boom'' \<and>
        fst (fails \<lparr>clock = 200\<rparr>) = Inl ''boom'' \<and>
        (let (r1, cb1, w1') = execute fails ''a'' cb0 \<lparr>clock = 0\<rparr>;
             (r2, cb2, w2') = execute fails ''b'' cb1 \<lparr>clock = 100\<rparr>;
             (r3, cb3, w3') = execute fails ''c'' cb2 \<lparr>clock = 200\<rparr>
         in cb_state cb1 = CLOSED \<and> cb_state cb2 = CLOSED \<and> cb_state cb3 = OPEN \<and> cb3 = cbo))
     \<and> (cb_state cbo = OPEN \<and>
        clock \<lparr>clock = 30209\<rparr> - cb_lastStateChange cbo < resetTimeout (cb_config cbo) \<and>
        (\<exists>err. execute works ''d'' cbo \<lparr>clock = 30209\<rparr> = (Inl err, cbo, \<lparr>clock = 30209\<rparr>)))
     \<and> (cb_state cbo = OPEN \<and>
        clock \<lparr>clock = 30210\<rparr> - cb_lastStateChange cbo \<ge> resetTimeout (cb_config cbo) \<and>
        checkState cbo \<lparr>clock = 30210\<rparr> = Inr cbh \<and>
        fst (works \<lparr>clock = 30210\<rparr>) = Inr 7 \<and>
        execute works ''e'' cbo \<lparr>clock = 30210\<rparr>
          = (Inr 7,
             \<lparr>cb_config = cfg, cb_state = CLOSED, cb_failures = 0,
              cb_lastFailureTime = 210, cb_lastStateChange = 30220\<rparr>,
             \<lparr>clock = 30220\<rparr>) \<and>
        fst (fails \<lparr>clock = 30210\<rparr>) = Inl ''boom'' \<and>
        isl (fst (execute fails ''e'' cbo \<lparr>clock = 30210\<rparr>)) \<and>
        snd (execute fails ''e'' cbo \<lparr>clock = 30210\<rparr>)
          = (\<lparr>cb_config = cfg, cb_state = OPEN, cb_failures = 4,
              cb_lastFailureTime = 30220, cb_lastStateChange = 30220\<rparr>,
             \<lparr>clock = 30220\<rparr>))
     \<and> (cb_state cbh = HALF_OPEN \<and> fst (works \<lparr>clock = 30211\<rparr>) = Inr 7 \<and>
        execute works ''f'' cbh \<lparr>clock = 30211\<rparr>
          = (Inr 7,
             \<lparr>cb_config = cfg, cb_state = CLOSED, cb_failures = 0,
              cb_lastFailureTime = 210, cb_lastStateChange = 30221\<rparr>,
             \<lparr>clock = 30221\<rparr>)))"
  using circuit_breaker_lifecycle
    [where ?cb0.0 = "CircuitBreaker_new \<lparr>failureThreshold = 3, resetTimeout = 30000, halfOpenTimeout = 15000\<rparr> \<lparr>clock = 0\<rparr>"
       and ?op1.0 = "\<lambda>w::world. (Inl ''boom'' :: string + nat, w\<lparr>clock := clock w + 10\<rparr>)"
       and ?op2.0 = "\<lambda>w::world. (Inl ''boom'' :: string + nat, w\<lparr>clock := clock w + 10\<rparr>)"
       and ?op3.0 = "\<lambda>w::world. (Inl ''boom'' :: string + nat, w\<lparr>clock := clock w + 10\<rparr>)"
       and ?w1.0 = "\<lparr>clock = 0\<rparr>" and ?w2.0 = "\<lparr>clock = 100\<rparr>" and ?w3.0 = "\<lparr>clock = 200\<rparr>"
       and ?e1.0 = "''boom''" and ?e2.0 = "''boom''" and ?e3.0 = "''boom''"
       and ?c1.0 = "''a''" and ?c2.0 = "''b''" and ?c3.0 = "''c''"
       and cb = "\<lparr>cb_config = \<lparr>failureThreshold = 3, resetTimeout = 30000, halfOpenTimeout = 15000\<rparr>,
                 cb_state = OPEN, cb_failures = 3, cb_lastFailureTime = 210, cb_lastStateChange = 210\<rparr>"
       and w = "\<lparr>clock = 30209\<rparr>" and ctx = "''d''"
       and operation = "\<lambda>w::world. (Inr 7 :: string + nat, w\<lparr>clock := clock w + 10\<rparr>)" and r = 7]
    circuit_breaker_lifecycle
    [where cb = "\<lparr>cb_config = \<lparr>failureThreshold = 3, resetTimeout = 30000, halfOpenTimeout = 15000\<rparr>,
                 cb_state = OPEN, cb_failures = 3, cb_lastFailureTime = 210, cb_lastStateChange = 210\<rparr>"
       and w = "\<lparr>clock = 30210\<rparr>" and ctx = "''e''"
       and operation = "\<lambda>w::world. (Inr 7 :: string + nat, w\<lparr>clock := clock w + 10\<rparr>)" and r = 7]
    circuit_breaker_lifecycle
    [where cb = "\<lparr>cb_config = \<lparr>failureThreshold = 3, resetTimeout = 30000, halfOpenTimeout = 15000\<rparr>,
                 cb_state = OPEN, cb_failures = 3, cb_lastFailureTime = 210, cb_lastStateChange = 210\<rparr>"
       and w = "\<lparr>clock = 30210\<rparr>" and ctx = "''e''"
       and operation = "\<lambda>w::world. (Inl ''boom'' :: string + nat, w\<lparr>clock := clock w + 10\<rparr>)" and r = 7]
    circuit_breaker_lifecycle
    [where cb = "\<lparr>cb_config = \<lparr>failureThreshold = 3, resetTimeout = 30000, halfOpenTimeout = 15000\<rparr>,
                 cb_state = HALF_OPEN, cb_failures = 3, cb_lastFailureTime = 210, cb_lastStateChange = 30210\<rparr>"
       and w = "\<lparr>clock = 30211\<rparr>" and ctx = "''f''"
       and operation = "\<lambda>w::world. (Inr 7 :: string + nat, w\<lparr>clock := clock w + 10\<rparr>)" and r = 7]
  by (simp add: execute_def checkState_def onFailure_def onSuccess_def transitionTo_def
       CircuitBreaker_new_def AgentError_new3_def AgentError_new_def Let_def)

text \<open>
  Claim C2 (rejection while open), evaluated.  A breaker that opened at time 210 with a
  \<open>resetTimeout\<close> of 30000 rejects a call at time 1000 and a call at time 20000 without
  invoking the operation (breaker and world come back unchanged).  The error thrown is the
  same value both times: its \<open>type\<close> is undefined, since the enumeration has no
  \<^verbatim>\<open>OPERATION\<close> member, and it has no field for the remaining time, since the
  constructor drops its third argument.
\<close>

theorem open_breaker_rejection_error:
  "execute failing_operation ''routing'' open_breaker \<lparr>clock = 1000\<rparr>
     = (Inl \<lparr>err_type = None, err_message = ''Circuit breaker is OPEN''\<rparr>, open_breaker, \<lparr>clock = 1000\<rparr>)
   \<and> execute failing_operation ''routing'' open_breaker \<lparr>clock = 20000\<rparr>
     = (Inl \<lparr>err_type = None, err_message = ''Circuit breaker is OPEN''\<rparr>, open_breaker, \<lparr>clock = 20000\<rparr>)"
  by (simp add: execute_def checkState_def open_breaker_def AgentError_new3_def AgentError_new_def
        AgentErrorType_OPERATION_def)

section \<open>JavaScript numbers: properties of rounding\<close>

lemma two_powi_less_iff: "(2::rat) powi a < 2 powi b \<longleftrightarrow> a < b"
proof
  assume l: "(2::rat) powi a < 2 powi b"
  show "a < b"
  proof (rule ccontr)
    assume "\<not> a < b"
    then have "b \<le> a" by simp
    then have "(2::rat) powi b \<le> 2 powi a" by (intro power_int_increasing) simp_all
    with l show False by simp
  qed
next
  assume "a < b"
  then show "(2::rat) powi a < 2 powi b" by (intro power_int_strict_increasing) simp_all
qed

lemma two_powi_pos: "(0::rat) < 2 powi a"
  by (simp add: zero_less_power_int)

lemma two_powi_add: "(2::rat) powi (a + b) = 2 powi a * 2 powi b"
  by (simp add: power_int_add)

lemma two_powi_Suc: "(2::rat) powi (a + 1) = 2 * 2 powi a"
  by (simp add: power_int_add)

lemma binade_bounds:
  assumes "x \<noteq> 0"
  shows "2 powi (binade x) \<le> \<bar>x\<bar>" and "\<bar>x\<bar> < 2 powi (binade x + 1)"
proof -
  obtain p q where pq: "quotient_of x = (p, q)" by (cases "quotient_of x")
  then have q: "q > 0" and x: "x = of_int p / of_int q"
    by (simp_all add: quotient_of_denom_pos quotient_of_div)
  from x assms have p: "p \<noteq> 0" by auto
  define P where "P = nat \<bar>p\<bar>"
  define Q where "Q = nat q"
  define bP where "bP = floorlog 2 P"
  define bQ where "bQ = floorlog 2 Q"
  have Ppos: "P > 0" and Qpos: "Q > 0" using p q by (simp_all add: P_def Q_def)
  have "(of_nat P :: rat) = \<bar>of_int p\<bar>" "(of_nat Q :: rat) = of_int q"
    using q by (simp_all add: P_def Q_def)
  then have absx: "\<bar>x\<bar> = of_nat P / of_nat Q"
    using q by (simp add: x abs_divide)
  have bP: "2 ^ (bP - 1) \<le> P" "P < 2 ^ bP"
    using floorlog_bounds [of P 2] Ppos by (simp_all add: bP_def)
  have bQ: "2 ^ (bQ - 1) \<le> Q" "Q < 2 ^ bQ"
    using floorlog_bounds [of Q 2] Qpos by (simp_all add: bQ_def)
  have bPpos: "bP > 0" using bP(2) Ppos by (cases bP) simp_all
  have bQpos: "bQ > 0" using bQ(2) Qpos by (cases bQ) simp_all
  define e0 where "e0 = int bP - int bQ"
  have bin: "binade x = (if 2 powi e0 \<le> \<bar>x\<bar> then e0 else e0 - 1)"
    by (simp add: binade_def pq e0_def bP_def bQ_def P_def Q_def Let_def)
  have Pr: "(2::rat) ^ (bP - 1) \<le> of_nat P" "(of_nat P :: rat) < 2 ^ bP"
    using bP by (metis of_nat_le_iff of_nat_numeral of_nat_power, metis of_nat_less_iff of_nat_numeral of_nat_power)
  have Qr: "(2::rat) ^ (bQ - 1) \<le> of_nat Q" "(of_nat Q :: rat) < 2 ^ bQ"
    using bQ by (metis of_nat_le_iff of_nat_numeral of_nat_power, metis of_nat_less_iff of_nat_numeral of_nat_power)
  have Qrpos: "(0::rat) < of_nat Q" using Qpos by simp
  have lower: "2 powi (e0 - 1) \<le> \<bar>x\<bar>"
  proof -
    have "(2::rat) powi (e0 - 1) * of_nat Q \<le> 2 powi (e0 - 1) * 2 ^ bQ"
      using Qr(2) by (intro mult_left_mono) (simp_all add: less_imp_le two_powi_pos)
    also have "\<dots> = 2 powi (e0 - 1) * 2 powi (int bQ)" by simp
    also have "\<dots> = 2 powi (int bP - 1)"
      unfolding two_powi_add [symmetric] by (simp add: e0_def)
    also have "\<dots> = 2 ^ (bP - 1)"
      using bPpos by (simp add: power_int_def nat_diff_distrib)
    also have "\<dots> \<le> of_nat P" by (rule Pr(1))
    finally show ?thesis
      unfolding absx using Qrpos by (simp add: pos_le_divide_eq)
  qed
  have upper: "\<bar>x\<bar> < 2 powi (e0 + 1)"
  proof -
    have "(of_nat P :: rat) < 2 ^ bP" by (rule Pr(2))
    also have "\<dots> = 2 powi (int bP)" by simp
    also have "\<dots> = 2 powi (e0 + 1) * 2 powi (int bQ - 1)"
      unfolding two_powi_add [symmetric] by (simp add: e0_def)
    also have "2 powi (int bQ - 1) = (2::rat) ^ (bQ - 1)"
      using bQpos by (simp add: power_int_def nat_diff_distrib)
    also have "2 powi (e0 + 1) * (2::rat) ^ (bQ - 1) \<le> 2 powi (e0 + 1) * of_nat Q"
      using Qr(1) by (intro mult_left_mono) (simp_all add: less_imp_le two_powi_pos)
    finally show ?thesis
      unfolding absx using Qrpos by (simp add: pos_divide_less_eq)
  qed
  show "2 powi (binade x) \<le> \<bar>x\<bar>" using lower by (simp add: bin)
  show "\<bar>x\<bar> < 2 powi (binade x + 1)" using upper by (auto simp: bin not_le)
qed

lemma round_half_even_error: "\<bar>of_int (round_half_even y) - y\<bar> \<le> 1 / 2"
proof -
  define f where "f = \<lfloor>y\<rfloor>"
  define d where "d = y - of_int f"
  have d: "0 \<le> d" "d < 1" unfolding d_def f_def by linarith+
  have r: "round_half_even y = (if d < 1 / 2 then f else if d > 1 / 2 then f + 1
                                else if even f then f else f + 1)"
    by (simp add: round_half_even_def Let_def f_def d_def)
  have y: "y = of_int f + d" by (simp add: d_def)
  show ?thesis
  proof (cases "d < 1 / 2")
    case True
    then have "round_half_even y = f" by (simp add: r)
    then show ?thesis using d True by (simp add: d_def)
  next
    case False
    show ?thesis
    proof (cases "d > 1 / 2")
      case True
      then have "round_half_even y = f + 1" using False by (simp add: r)
      then show ?thesis using d True by (simp add: d_def)
    next
      case F2: False
      with False have h: "d = 1 / 2" by simp
      then have "round_half_even y = f \<or> round_half_even y = f + 1" by (simp add: r)
      then show ?thesis using h by (auto simp: d_def)
    qed
  qed
qed

lemma round_half_even_of_int [simp]: "round_half_even (of_int z) = z"
  by (simp add: round_half_even_def)

lemma round_to_double_normal:
  assumes lo: "2 powi (- 1022) \<le> \<bar>x\<bar>" and hi: "\<bar>x\<bar> < 2 powi 1023"
  shows "\<exists>r. round_to_double x = Num r \<and> \<bar>r - x\<bar> \<le> \<bar>x\<bar> / 2 ^ 53"
proof -
  have x0: "x \<noteq> 0" using lo two_powi_pos [of "- 1022"] by auto
  define e where "e = binade x"
  have b: "2 powi e \<le> \<bar>x\<bar>" "\<bar>x\<bar> < 2 powi (e + 1)"
    using binade_bounds [OF x0] by (simp_all add: e_def)
  have "(2::rat) powi (- 1022) < 2 powi (e + 1)" using lo b(2) by simp
  then have e_lo: "- 1022 \<le> e" unfolding two_powi_less_iff by simp
  have "(2::rat) powi e < 2 powi 1023" using hi b(1) by simp
  then have e_hi: "e \<le> 1022" unfolding two_powi_less_iff by simp
  define qn :: rat where "qn = 2 powi (e - 52)"
  define m where "m = round_half_even (\<bar>x\<bar> / qn)"
  define R where "R = of_int m * qn"
  have qn_pos: "0 < qn" by (simp add: qn_def two_powi_pos)
  have "\<bar>of_int m - \<bar>x\<bar> / qn\<bar> \<le> 1 / 2"
    unfolding m_def by (rule round_half_even_error)
  then have "\<bar>of_int m - \<bar>x\<bar> / qn\<bar> * qn \<le> 1 / 2 * qn"
    using qn_pos by (intro mult_right_mono) simp_all
  moreover have "\<bar>of_int m - \<bar>x\<bar> / qn\<bar> * qn = \<bar>R - \<bar>x\<bar>\<bar>"
  proof -
    have "\<bar>of_int m - \<bar>x\<bar> / qn\<bar> * qn = \<bar>(of_int m - \<bar>x\<bar> / qn) * qn\<bar>"
      using qn_pos by (simp add: abs_mult)
    also have "(of_int m - \<bar>x\<bar> / qn) * qn = R - \<bar>x\<bar>"
      using qn_pos by (simp add: R_def left_diff_distrib)
    finally show ?thesis .
  qed
  ultimately have err: "\<bar>R - \<bar>x\<bar>\<bar> \<le> qn / 2" by simp
  have qn2: "qn / 2 = 2 powi e / 2 ^ 53"
  proof -
    have "(2::rat) powi e = 2 powi (e - 52) * 2 powi 52"
      unfolding two_powi_add [symmetric] by simp
    then show ?thesis by (simp add: qn_def)
  qed
  have "qn / 2 \<le> \<bar>x\<bar> / 2 ^ 53"
    unfolding qn2 using b(1) by (simp add: divide_right_mono)
  with err have bound: "\<bar>R - \<bar>x\<bar>\<bar> \<le> \<bar>x\<bar> / 2 ^ 53" by simp
  have "R - \<bar>x\<bar> \<le> \<bar>R - \<bar>x\<bar>\<bar>" by simp
  with bound have "R \<le> \<bar>x\<bar> + \<bar>x\<bar> / 2 ^ 53" by linarith
  also have "\<bar>x\<bar> / 2 ^ 53 \<le> \<bar>x\<bar>" by (simp add: divide_le_eq)
  then have "\<bar>x\<bar> + \<bar>x\<bar> / 2 ^ 53 \<le> \<bar>x\<bar> + \<bar>x\<bar>" by simp
  also have "\<dots> < 2 powi 1023 + 2 powi 1023" using hi by simp
  also have "\<dots> = 2 powi 1024"
  proof -
    have "(2::rat) powi 1024 = 2 powi (1023 + 1)" by simp
    also have "\<dots> = 2 * 2 powi 1023" by (rule two_powi_Suc)
    finally show ?thesis by simp
  qed
  finally have fin: "\<not> R \<ge> 2 powi 1024" by simp
  have rd: "round_to_double x = Num (if x > 0 then R else - R)"
    using x0 e_lo fin
    unfolding round_to_double_def Let_def e_def [symmetric]
    by (simp add: max_def R_def m_def qn_def)
  show ?thesis
  proof (cases "x > 0")
    case True
    then show ?thesis using bound rd by simp
  next
    case False
    then have "x < 0" using x0 by simp
    then have "\<bar>- R - x\<bar> = \<bar>R - \<bar>x\<bar>\<bar>" by (simp add: abs_minus_commute)
    then show ?thesis using bound rd False by simp
  qed
qed

lemma round_to_double_of_int:
  assumes "\<bar>k\<bar> \<le> 2 ^ 53"
  shows "round_to_double (of_int k) = Num (of_int k)"
proof (cases "k = 0")
  case True
  then show ?thesis by (simp add: round_to_double_def)
next
  case False
  define x :: rat where "x = of_int k"
  have x0: "x \<noteq> 0" using False by (simp add: x_def)
  have ax: "\<bar>x\<bar> = of_int \<bar>k\<bar>" by (simp add: x_def)
  define e where "e = binade x"
  have b: "2 powi e \<le> \<bar>x\<bar>" "\<bar>x\<bar> < 2 powi (e + 1)"
    using binade_bounds [OF x0] by (simp_all add: e_def)
  have "1 \<le> \<bar>k\<bar>" using False by simp
  then have "(of_int 1 :: rat) \<le> of_int \<bar>k\<bar>" by (simp only: of_int_le_iff)
  then have "(1::rat) \<le> \<bar>x\<bar>" by (simp add: ax)
  then have "(2::rat) powi 0 < 2 powi (e + 1)" using b(2) by simp
  then have e0: "0 \<le> e" unfolding two_powi_less_iff by simp
  have le53: "\<bar>x\<bar> \<le> 2 ^ 53"
  proof -
    have "(of_int \<bar>k\<bar> :: rat) \<le> of_int (2 ^ 53)" using assms by (simp only: of_int_le_iff)
    then show ?thesis by (simp add: ax)
  qed
  then have "(2::rat) powi e < 2 powi 54"
    using b(1) by simp
  then have e53: "e \<le> 53" unfolding two_powi_less_iff by simp
  define qn :: rat where "qn = 2 powi (e - 52)"
  have qn_pos: "0 < qn" by (simp add: qn_def two_powi_pos)
  have "\<exists>z. \<bar>x\<bar> / qn = of_int z"
  proof (cases "e \<le> 52")
    case True
    have "1 / qn = 2 powi (52 - e)"
      by (simp add: qn_def power_int_diff)
    also have "\<dots> = 2 ^ nat (52 - e)" using True by (simp add: power_int_def)
    finally have "\<bar>x\<bar> / qn = of_int (\<bar>k\<bar> * 2 ^ nat (52 - e))"
      by (simp add: ax divide_inverse)
    then show ?thesis by blast
  next
    case False
    with e53 have e: "e = 53" by simp
    have "(2::rat) powi 53 \<le> \<bar>x\<bar>" using b(1) e by simp
    with le53 have "\<bar>x\<bar> = 2 ^ 53" by simp
    moreover have "qn = 2" by (simp add: qn_def e)
    ultimately have "\<bar>x\<bar> / qn = of_int (2 ^ 52)" by simp
    then show ?thesis by blast
  qed
  then obtain z where z: "\<bar>x\<bar> / qn = of_int z" by blast
  define m where "m = round_half_even (\<bar>x\<bar> / qn)"
  define R where "R = of_int m * qn"
  have R: "R = \<bar>x\<bar>"
    unfolding R_def m_def z round_half_even_of_int using z [symmetric] qn_pos by simp
  have "\<bar>x\<bar> < 2 powi (e + 1)" by (rule b(2))
  also have "\<dots> \<le> 2 powi 1024" using e53 by (intro power_int_increasing) simp_all
  finally have fin: "\<not> R \<ge> 2 powi 1024" unfolding R by simp
  have e_lo: "- 1022 \<le> e" using e0 by simp
  have rd: "round_to_double x = Num (if x > 0 then R else - R)"
    using x0 e_lo fin
    unfolding round_to_double_def Let_def e_def [symmetric]
    by (simp add: max_def R_def m_def qn_def)
  show ?thesis
    unfolding x_def [symmetric] rd R by (simp add: abs_if)
qed

section \<open>Health metrics: properties\<close>

lemma record_step_times:
  shows "hm_processingTimes (if ok then recordSuccess t hm w else recordError t hm w) =
     (if length (hm_processingTimes hm @ [t]) > hm_maxSamples hm
      then tl (hm_processingTimes hm @ [t]) else hm_processingTimes hm @ [t])"
  and "hm_maxSamples (if ok then recordSuccess t hm w else recordError t hm w) = hm_maxSamples hm"
  by (simp_all add: recordSuccess_def recordError_def addProcessingTime_def Let_def)

lemma window_step:
  assumes "length ts \<le> n"
  shows "(if length (ts @ [t]) > n then tl (ts @ [t]) else ts @ [t])
           = drop (length (ts @ [t]) - n) (ts @ [t])"
proof (cases "length ts = n")
  case True
  then have a: "length (ts @ [t]) - n = Suc 0" and b: "n < length (ts @ [t])" by simp_all
  show ?thesis by (simp only: a b if_True drop_Suc drop_0)
next
  case False
  with assms show ?thesis by simp
qed

lemma last_window_append:
  "drop (length (drop (length xs - n) xs @ ys) - n) (drop (length xs - n) xs @ ys)
     = drop (length (xs @ ys) - n) (xs @ ys)"
proof (cases "length xs \<le> n")
  case True
  then show ?thesis by simp
next
  case False
  then have k: "length (drop (length xs - n) xs) = n" by simp
  have "length (xs @ ys) - n = length ys + (length xs - n)" using False by simp
  then have "drop (length (xs @ ys) - n) (xs @ ys) = drop (length ys) (drop (length xs - n) (xs @ ys))"
    by (simp only: drop_drop)
  also have "\<dots> = drop (length ys) (drop (length xs - n) xs @ ys)" by simp
  finally show ?thesis using k by simp
qed

lemma record_all_window:
  assumes "length (hm_processingTimes hm) \<le> hm_maxSamples hm"
  shows "hm_processingTimes (record_all evs hm) =
           drop (length (hm_processingTimes hm @ map (\<lambda>ev. fst (snd ev)) evs) - hm_maxSamples hm)
                (hm_processingTimes hm @ map (\<lambda>ev. fst (snd ev)) evs)
         \<and> hm_maxSamples (record_all evs hm) = hm_maxSamples hm"
  using assms
proof (induction evs arbitrary: hm)
  case Nil
  then show ?case by simp
next
  case (Cons ev evs)
  obtain ok t w where ev: "ev = (ok, t, w)" by (cases ev)
  let ?hm = "if ok then recordSuccess t hm w else recordError t hm w"
  let ?n = "hm_maxSamples hm"
  let ?ts = "hm_processingTimes hm"
  let ?rest = "map (\<lambda>ev. fst (snd ev)) evs"
  have ts': "hm_processingTimes ?hm = drop (length (?ts @ [t]) - ?n) (?ts @ [t])"
    using record_step_times(1) [of ok t hm w] window_step [OF Cons.prems, of t] by simp
  have n': "hm_maxSamples ?hm = ?n"
    using record_step_times(2) [of ok t hm w] by simp
  have len: "length (hm_processingTimes ?hm) \<le> hm_maxSamples ?hm"
    using Cons.prems unfolding ts' n' by simp
  have ih: "hm_processingTimes (record_all evs ?hm) =
           drop (length (hm_processingTimes ?hm @ ?rest) - ?n) (hm_processingTimes ?hm @ ?rest)"
    and ihn: "hm_maxSamples (record_all evs ?hm) = ?n"
    using Cons.IH [OF len, unfolded n'] by (rule conjunct1, rule conjunct2)
  have "hm_processingTimes (record_all evs ?hm) = drop (length ((?ts @ [t]) @ ?rest) - ?n) ((?ts @ [t]) @ ?rest)"
    unfolding ih ts' by (rule last_window_append)
  then show ?case
    using ihn by (simp add: ev)
qed

lemma record_all_counts:
  "hm_messageCount (record_all evs hm) = hm_messageCount hm + int (length evs) \<and>
   hm_errorCount (record_all evs hm) = hm_errorCount hm + int (length (filter (\<lambda>ev. \<not> fst ev) evs))"
  by (induction evs hm rule: record_all.induct)
     (simp_all add: recordSuccess_def recordError_def addProcessingTime_def Let_def)

lemma fl_sub_counters:
  assumes "0 \<le> e" and "e \<le> n" and "n \<le> 2 ^ 53"
  shows "fl_sub (Num (of_int n)) (Num (of_int e)) = Num (of_int (n - e))"
proof -
  have "\<bar>n - e\<bar> \<le> 2 ^ 53" using assms by simp
  from round_to_double_of_int [OF this] show ?thesis
    by (simp add: fl_sub_def)
qed

lemma success_rate_double:
  assumes n: "0 < n" "n \<le> 2 ^ 53" and e: "0 \<le> e" "e \<le> n"
  shows "\<exists>s. fl_mul (fl_div (Num (of_int (n - e))) (Num (of_int n))) (Num 100) = Num s \<and>
             \<bar>s - of_int (n - e) / of_int n * 100\<bar> \<le> (of_int (n - e) / of_int n * 100) / 2 ^ 51 \<and>
             (e = 0 \<longrightarrow> s = 100) \<and> (e = n \<longrightarrow> s = 0)"
proof (cases "e = n")
  case True
  then show ?thesis using n by (simp add: round_to_double_def)
next
  case False
  define q :: rat where "q = of_int (n - e) / of_int n"
  have npos: "(0::rat) < of_int n" using n by simp
  have ne1: "1 \<le> n - e" using False e by simp
  have "(of_int 1 :: rat) \<le> of_int (n - e)" using ne1 by (simp only: of_int_le_iff)
  then have num1: "(1::rat) \<le> of_int (n - e)" by simp
  have "n - e \<le> n" using e by simp
  then have "(of_int (n - e) :: rat) \<le> of_int n" by (simp only: of_int_le_iff)
  then have q1: "q \<le> 1" using npos by (simp add: q_def divide_le_eq)
  have "(of_int n :: rat) \<le> of_int (2 ^ 53)" using n by (simp only: of_int_le_iff)
  then have n53: "(of_int n :: rat) \<le> 2 ^ 53" by simp
  have "1 / 2 ^ 53 \<le> 1 / (of_int n :: rat)"
    using npos n53 by (intro divide_left_mono) simp_all
  also have "\<dots> \<le> q"
    unfolding q_def using npos num1 by (intro divide_right_mono) simp_all
  finally have qlow: "1 / 2 ^ 53 \<le> q" .
  then have qpos: "0 < q" by (rule less_le_trans [rotated]) simp
  have p53: "(2::rat) powi (- 53) = 1 / 2 ^ 53" by (simp add: power_int_minus_divide)
  have lo1: "2 powi (- 1022) \<le> \<bar>q\<bar>"
  proof -
    have "(2::rat) powi (- 1022) \<le> 2 powi (- 53)" by (intro power_int_increasing) simp_all
    with qlow qpos show ?thesis by (simp add: p53)
  qed
  have hi1: "\<bar>q\<bar> < 2 powi 1023"
  proof -
    have "(2::rat) powi 0 < 2 powi 1023" by (intro power_int_strict_increasing) simp_all
    with q1 qpos show ?thesis by simp
  qed
  obtain q' where q': "round_to_double q = Num q'" "\<bar>q' - q\<bar> \<le> \<bar>q\<bar> / 2 ^ 53"
    using round_to_double_normal [OF lo1 hi1] by blast
  have div: "fl_div (Num (of_int (n - e))) (Num (of_int n)) = Num q'"
    using npos q'(1) by (simp add: q_def)
  define p where "p = q' * 100"
  have aq: "\<bar>q\<bar> = q" using qpos by simp
  have q'b: "q - q / 2 ^ 53 \<le> q'" "q' \<le> q + q / 2 ^ 53"
    using q'(2) unfolding aq by linarith+
  have half: "q / 2 ^ 53 \<le> q / 2" using qpos by (simp add: divide_le_eq)
  have q'low: "q / 2 \<le> q'" using q'b(1) half by linarith
  have q'hi: "q' \<le> 2 * q" using q'b(2) half qpos by linarith
  have ppos: "0 < p" using q'low qpos by (simp add: p_def)
  have lo2: "2 powi (- 1022) \<le> \<bar>p\<bar>"
  proof -
    have "(2::rat) powi (- 1022) \<le> 2 powi (- 53)" by (intro power_int_increasing) simp_all
    also have "\<dots> \<le> q" using qlow by (simp add: p53)
    also have "\<dots> \<le> p" using q'low qpos by (simp add: p_def)
    finally show ?thesis using ppos by simp
  qed
  have hi2: "\<bar>p\<bar> < 2 powi 1023"
  proof -
    have "p \<le> 200" using q'hi q1 by (simp add: p_def)
    also have "(200::rat) < 2 ^ 8" by simp
    also have "(2::rat) ^ 8 = 2 powi 8" by simp
    also have "(2::rat) powi 8 < 2 powi 1023" by (intro power_int_strict_increasing) simp_all
    finally show ?thesis using ppos by simp
  qed
  obtain s where s: "round_to_double p = Num s" "\<bar>s - p\<bar> \<le> \<bar>p\<bar> / 2 ^ 53"
    using round_to_double_normal [OF lo2 hi2] by blast
  have mul: "fl_mul (Num q') (Num 100) = Num s"
    using s(1) by (simp add: p_def)
  have e1: "\<bar>s - p\<bar> \<le> 2 * (q * 100) / 2 ^ 53"
  proof -
    have "\<bar>p\<bar> \<le> 2 * (q * 100)" using ppos q'hi by (simp add: p_def)
    then have "\<bar>p\<bar> / 2 ^ 53 \<le> 2 * (q * 100) / 2 ^ 53" by (intro divide_right_mono) simp_all
    with s(2) show ?thesis by linarith
  qed
  have e2: "\<bar>p - q * 100\<bar> \<le> (q * 100) / 2 ^ 53"
  proof -
    have "\<bar>p - q * 100\<bar> = \<bar>q' - q\<bar> * 100" by (simp add: p_def abs_if algebra_simps)
    also have "\<dots> \<le> (\<bar>q\<bar> / 2 ^ 53) * 100" using q'(2) by (intro mult_right_mono) simp_all
    finally show ?thesis using qpos by simp
  qed
  have "\<bar>s - q * 100\<bar> \<le> \<bar>s - p\<bar> + \<bar>p - q * 100\<bar>" by simp
  also have "\<dots> \<le> 2 * (q * 100) / 2 ^ 53 + (q * 100) / 2 ^ 53" using e1 e2 by linarith
  also have "\<dots> = 3 * ((q * 100) / 2 ^ 53)" by simp
  also have "\<dots> \<le> 4 * ((q * 100) / 2 ^ 53)" using qpos by simp
  also have "\<dots> = (q * 100) / 2 ^ 51" by simp
  finally have bound: "\<bar>s - q * 100\<bar> \<le> (q * 100) / 2 ^ 51" .
  have exact: "s = 100" if "e = 0"
  proof -
    have "q = 1" using that npos by (simp add: q_def)
    then have "round_to_double q = Num 1"
      using round_to_double_of_int [of 1] by simp
    with q'(1) have "q' = 1" by simp
    then have "p = of_int 100" by (simp add: p_def)
    then have "round_to_double p = Num 100"
      using round_to_double_of_int [of 100] by simp
    with s(1) show ?thesis by simp
  qed
  show ?thesis
    using div mul bound exact False unfolding q_def by auto
qed

lemma sum_whole_latencies:
  assumes "list_all (\<lambda>t. 0 \<le> t \<and> t = of_int \<lfloor>t\<rfloor>) ts"
    and "0 \<le> a" and "a + sum_list ts \<le> 2 ^ 53" and "a = of_int \<lfloor>a\<rfloor>"
  shows "foldl (\<lambda>a b. fl_add a (Num b)) (Num a) ts = Num (a + sum_list ts)"
  using assms
proof (induction ts arbitrary: a)
  case Nil
  then show ?case by simp
next
  case (Cons t ts)
  have t: "0 \<le> t" "t = of_int \<lfloor>t\<rfloor>" and rest: "list_all (\<lambda>t. 0 \<le> t \<and> t = of_int \<lfloor>t\<rfloor>) ts"
    using Cons.prems(1) by simp_all
  have nn: "0 \<le> sum_list ts"
    using rest by (induction ts) simp_all
  define k where "k = \<lfloor>a\<rfloor> + \<lfloor>t\<rfloor>"
  have at: "a + t = of_int k"
    using t(2) Cons.prems(4) unfolding k_def of_int_add by simp
  have "a + t \<le> 2 ^ 53" using Cons.prems(3) nn by simp
  then have "(of_int k :: rat) \<le> of_int (2 ^ 53)" by (simp add: at)
  then have "k \<le> 2 ^ 53" by (simp only: of_int_le_iff)
  moreover have "(of_int 0 :: rat) \<le> of_int k" using t(1) Cons.prems(2) by (simp add: at [symmetric])
  then have "0 \<le> k" by (simp only: of_int_le_iff)
  ultimately have "\<bar>k\<bar> \<le> 2 ^ 53" by simp
  then have step: "round_to_double (a + t) = Num (a + t)"
    using round_to_double_of_int [of k] by (simp add: at)
  have "foldl (\<lambda>a b. fl_add a (Num b)) (Num (a + t)) ts = Num (a + t + sum_list ts)"
  proof (rule Cons.IH [OF rest])
    show "0 \<le> a + t" using t(1) Cons.prems(2) by simp
    show "a + t + sum_list ts \<le> 2 ^ 53" using Cons.prems(3) by (simp add: add.assoc)
    show "a + t = of_int \<lfloor>a + t\<rfloor>" by (simp add: at)
  qed
  then show ?case by (simp add: step add.assoc)
qed

lemma mean_whole_latencies:
  assumes whole: "list_all (\<lambda>t. 0 \<le> t \<and> t = of_int \<lfloor>t\<rfloor>) ts"
    and sum: "sum_list ts \<le> 2 ^ 53" and len: "0 < length ts" "length ts \<le> 100"
  shows "\<exists>m. fl_div (foldl (\<lambda>a b. fl_add a (Num b)) (Num 0) ts) (Num (of_nat (length ts)))
               = round_to_double (sum_list ts / of_nat (length ts)) \<and>
             round_to_double (sum_list ts / of_nat (length ts)) = Num m \<and>
             \<bar>m - sum_list ts / of_nat (length ts)\<bar> \<le> (sum_list ts / of_nat (length ts)) / 2 ^ 53"
proof -
  define S where "S = sum_list ts"
  define L :: rat where "L = of_nat (length ts)"
  have Lpos: "0 < L" "L \<le> 100" using len by (simp_all add: L_def)
  have fold: "foldl (\<lambda>a b. fl_add a (Num b)) (Num 0) ts = Num S"
    using sum_whole_latencies [OF whole, of 0] sum by (simp add: S_def)
  have div: "fl_div (Num S) (Num L) = round_to_double (S / L)"
    using Lpos by simp
  have nn: "0 \<le> S"
    unfolding S_def using whole by (induction ts) simp_all
  have Sint: "S = of_int \<lfloor>S\<rfloor>"
    unfolding S_def using whole
  proof (induction ts)
    case Nil
    then show ?case by simp
  next
    case (Cons t ts)
    then have "t = of_int \<lfloor>t\<rfloor>" "sum_list ts = of_int \<lfloor>sum_list ts\<rfloor>" by simp_all
    then have "t + sum_list ts = of_int (\<lfloor>t\<rfloor> + \<lfloor>sum_list ts\<rfloor>)" by simp
    then show ?case by (metis floor_of_int sum_list.Cons)
  qed
  show ?thesis
  proof (cases "S = 0")
    case True
    then show ?thesis
      unfolding S_def [symmetric] L_def [symmetric] fold div
      by (simp add: round_to_double_def)
  next
    case False
    with nn have "0 < S" by simp
    then have "0 < \<lfloor>S\<rfloor>" using Sint by (metis of_int_0_less_iff)
    then have "1 \<le> \<lfloor>S\<rfloor>" by simp
    then have "(of_int 1 :: rat) \<le> of_int \<lfloor>S\<rfloor>" by (simp only: of_int_le_iff)
    then have S1: "1 \<le> S" using Sint by simp
    define x where "x = S / L"
    have xpos: "0 < x" using \<open>0 < S\<close> Lpos by (simp add: x_def)
    have "1 / 100 \<le> 1 / L" using Lpos by (intro divide_left_mono) simp_all
    also have "\<dots> \<le> x" unfolding x_def using S1 Lpos by (intro divide_right_mono) simp_all
    finally have xlo: "1 / 100 \<le> x" .
    have "1 \<le> L" using len(1) by (cases ts) (simp_all add: L_def)
    then have "S * 1 \<le> S * L" using nn by (intro mult_left_mono) simp_all
    then have "x \<le> S" unfolding x_def using Lpos by (simp add: divide_le_eq)
    then have xhi: "x \<le> 2 ^ 53" using sum by (simp add: S_def)
    have lo: "2 powi (- 1022) \<le> \<bar>x\<bar>"
    proof -
      have "(2::rat) powi (- 1022) \<le> 2 powi (- 7)" by (intro power_int_increasing) simp_all
      also have "\<dots> = 1 / 2 ^ 7" by (simp add: power_int_minus_divide)
      also have "\<dots> \<le> 1 / 100" by simp
      finally show ?thesis using xlo xpos by simp
    qed
    have hi: "\<bar>x\<bar> < 2 powi 1023"
    proof -
      have "x \<le> 2 powi 53" using xhi by simp
      also have "(2::rat) powi 53 < 2 powi 1023" by (intro power_int_strict_increasing) simp_all
      finally show ?thesis using xpos by simp
    qed
    obtain m where "round_to_double x = Num m" "\<bar>m - x\<bar> \<le> \<bar>x\<bar> / 2 ^ 53"
      using round_to_double_normal [OF lo hi] by blast
    then show ?thesis
      unfolding S_def [symmetric] L_def [symmetric] fold div x_def [symmetric]
      using xpos by simp
  qed
qed

lemma binade_unique:
  assumes "2 powi e \<le> \<bar>x\<bar>" and "\<bar>x\<bar> < 2 powi (e + 1)"
  shows "binade x = e"
proof -
  have "(0::rat) < 2 powi e" by (rule two_powi_pos)
  with assms(1) have "0 < \<bar>x\<bar>" by linarith
  then have x0: "x \<noteq> 0" by simp
  have b: "2 powi (binade x) \<le> \<bar>x\<bar>" "\<bar>x\<bar> < 2 powi (binade x + 1)"
    using binade_bounds [OF x0] by simp_all
  have "(2::rat) powi (binade x) < 2 powi (e + 1)" using b(1) assms(2) by simp
  moreover have "(2::rat) powi e < 2 powi (binade x + 1)" using b(2) assms(1) by simp
  ultimately show ?thesis unfolding two_powi_less_iff by simp
qed

lemma round_to_double_at:
  assumes lo: "2 powi e \<le> x" and hi: "x < 2 powi (e + 1)" and e: "- 1022 \<le> e" "e \<le> 1022"
    and m: "round_half_even (x / 2 powi (e - 52)) = m"
  shows "round_to_double x = Num (of_int m * 2 powi (e - 52))"
proof -
  have "(0::rat) < 2 powi e" by (rule two_powi_pos)
  with lo have xpos: "0 < x" by linarith
  then have ax: "\<bar>x\<bar> = x" by simp
  have be: "binade x = e" using binade_unique [of e x] lo hi ax by simp
  define qn :: rat where "qn = 2 powi (e - 52)"
  define R where "R = of_int m * qn"
  have qn_pos: "0 < qn" by (simp add: qn_def two_powi_pos)
  have "\<bar>of_int m - x / qn\<bar> \<le> 1 / 2"
    using round_half_even_error [of "x / qn"] m by (simp add: qn_def)
  then have "\<bar>of_int m - x / qn\<bar> * qn \<le> 1 / 2 * qn"
    using qn_pos by (intro mult_right_mono) simp_all
  moreover have "\<bar>of_int m - x / qn\<bar> * qn = \<bar>R - x\<bar>"
  proof -
    have "\<bar>of_int m - x / qn\<bar> * qn = \<bar>(of_int m - x / qn) * qn\<bar>"
      using qn_pos by (simp add: abs_mult)
    also have "(of_int m - x / qn) * qn = R - x"
      using qn_pos by (simp add: R_def left_diff_distrib)
    finally show ?thesis .
  qed
  ultimately have err: "\<bar>R - x\<bar> \<le> qn / 2" by simp
  have "qn \<le> 2 powi e" unfolding qn_def by (intro power_int_increasing) simp_all
  then have "qn / 2 \<le> x" using lo qn_pos by linarith
  moreover have "R - x \<le> \<bar>R - x\<bar>" by simp
  ultimately have "R \<le> x + x" using err by linarith
  also have "\<dots> < 2 powi (e + 1) + 2 powi (e + 1)" using hi by simp
  also have "\<dots> = 2 powi (e + 1 + 1)" unfolding two_powi_Suc [of "e + 1"] by simp
  also have "\<dots> \<le> 2 powi 1024" using e by (intro power_int_increasing) simp_all
  finally have fin: "\<not> R \<ge> 2 powi 1024" by simp
  show ?thesis
    using xpos e fin m
    unfolding round_to_double_def Let_def be
    by (simp add: max_def R_def qn_def)
qed

lemma floor_rat_numeral_divide:
  "\<lfloor>(numeral a / numeral b :: rat)\<rfloor> = numeral a div numeral b"
  by (metis floor_divide_of_int_eq of_int_numeral)

lemma round_eleven_twentieths:
  "round_to_double (11 / 20) = Num (2476979795053773 / 2 ^ 52)"
proof -
  have m: "round_half_even ((11 / 20) / 2 powi (- 1 - 52)) = 4953959590107546"
    by (simp add: round_half_even_def Let_def power_int_minus_divide floor_rat_numeral_divide)
  have "round_to_double (11 / 20) = Num (of_int 4953959590107546 * 2 powi (- 1 - 52))"
    by (rule round_to_double_at [OF _ _ _ _ m]) (simp_all add: power_int_minus_divide)
  then show ?thesis by (simp add: power_int_minus_divide)
qed

lemma round_fifty_five:
  "round_to_double (2476979795053773 / 2 ^ 52 * 100) = Num (55 + 1 / 2 ^ 47)"
proof -
  have m: "round_half_even ((2476979795053773 / 2 ^ 52 * 100) / 2 powi (5 - 52)) = 7740561859543041"
    by (simp add: round_half_even_def Let_def power_int_minus_divide floor_rat_numeral_divide)
  have "round_to_double (2476979795053773 / 2 ^ 52 * 100)
          = Num (of_int 7740561859543041 * 2 powi (5 - 52))"
    by (rule round_to_double_at [OF _ _ _ _ m]) (simp_all add: power_int_minus_divide)
  then show ?thesis by (simp add: power_int_minus_divide)
qed

lemma round_ninety_nine_and_a_half:
  "round_to_double (199 / 2) = Num (199 / 2)"
proof -
  have m: "round_half_even ((199 / 2) / 2 powi (6 - 52)) = 7001690045677568"
    by (simp add: round_half_even_def Let_def power_int_minus_divide floor_rat_numeral_divide)
  have "round_to_double (199 / 2) = Num (of_int 7001690045677568 * 2 powi (6 - 52))"
    by (rule round_to_double_at [OF _ _ _ _ m]) (simp_all add: power_int_minus_divide)
  then show ?thesis by (simp add: power_int_minus_divide)
qed

lemma eleven_of_twenty_counts:
  "hm_messageCount eleven_of_twenty = 20" "hm_errorCount eleven_of_twenty = 9"
  by (simp_all add: eleven_of_twenty_def twenty_recordings_def record_all_counts
        HealthMetrics_new_def filter_replicate)

lemma eleven_of_twenty_rate:
  "successRate (HM_getMetrics eleven_of_twenty) = Num (55 + 1 / 2 ^ 47)"
proof -
  have sub: "fl_sub (Num 20) (Num 9) = Num 11"
    using fl_sub_counters [of 9 20] by simp
  have div: "fl_div (Num 11) (Num 20) = Num (2476979795053773 / 2 ^ 52)"
    using round_eleven_twentieths by simp
  have mul: "fl_mul (Num (2476979795053773 / 2 ^ 52)) (Num 100) = Num (55 + 1 / 2 ^ 47)"
    using round_fifty_five by simp
  have "successRate (HM_getMetrics eleven_of_twenty)
          = fl_mul (fl_div (fl_sub (Num 20) (Num 9)) (Num 20)) (Num 100)"
    by (simp add: HM_getMetrics_def eleven_of_twenty_counts Let_def
          del: fl_mul.simps fl_div.simps fl_add.simps)
  then show ?thesis by (simp only: sub div mul)
qed

text \<open>
  Claim C3 (health metrics), as the code has it.  After 150 recordings, in any mix of
  \<open>recordSuccess\<close> and \<open>recordError\<close>, into a collector with the window of 100 (a
  fresh one, or any that holds at most 100 samples), the retained samples are exactly the
  last 100 of the 150 latencies, in order, and \<open>getMetrics\<close> reports their mean as the
  source computes it: the samples summed from 0, left to right, in double precision, and
  the sum divided by 100 in double precision.  Whenever the retained samples are whole,
  non-negative numbers (latencies in milliseconds) with a sum of at most \<open>2 ^ 53\<close>, the
  sum is exact and the reported mean is the exact mean rounded once to the nearest
  double, within a relative error of \<open>2 ^ - 53\<close>.  The success rate is exactly 100
  when \<open>messageCount\<close> is 0.  When \<open>messageCount = n\<close> with \<open>0 < n \<le> 2 ^ 53\<close> and
  \<open>errorCount = e\<close> with \<open>0 \<le> e \<le> n\<close>, it is \<open>((n - e) / n) * 100\<close> evaluated in
  double precision (the quotient rounded to the nearest double, its product with 100
  rounded again): a finite number within a relative error of \<open>2 ^ - 51\<close> of
  \<open>(n - e) / n * 100\<close>, and exactly 100 for \<open>e = 0\<close> and exactly 0 for \<open>e = n\<close>.  The
  mean latency is 0 when no sample is retained.

  The rate is not always the number \<open>(n - e) / n * 100\<close> itself, also where that number
  is a double: after 11 successes and 9 errors the exact rate is 55, and \<open>getMetrics\<close>
  reports \<open>55 + 2 ^ - 47\<close>, printed as 55.00000000000001, since 11 / 20 is rounded
  before it is multiplied by 100 (\<open>success_rate_not_exact_counterexample\<close> below).
\<close>

theorem health_metrics_window_and_rates:
  "(hm_maxSamples hm0 = 100 \<and> length (hm_processingTimes hm0) \<le> 100 \<and> length evs = 150 \<longrightarrow>
      hm_processingTimes (record_all evs hm0) = drop 50 (map (\<lambda>ev. fst (snd ev)) evs) \<and>
      length (hm_processingTimes (record_all evs hm0)) = 100 \<and>
      avgProcessingTime (HM_getMetrics (record_all evs hm0))
        = fl_div (foldl (\<lambda>a b. fl_add a (Num b)) (Num 0) (drop 50 (map (\<lambda>ev. fst (snd ev)) evs)))
                 (Num 100))
   \<and> hm_maxSamples HealthMetrics_new = 100 \<and> hm_processingTimes HealthMetrics_new = []
   \<and> (hm_processingTimes hm \<noteq> [] \<and> length (hm_processingTimes hm) \<le> 100 \<and>
        list_all (\<lambda>t. 0 \<le> t \<and> t = of_int \<lfloor>t\<rfloor>) (hm_processingTimes hm) \<and>
        sum_list (hm_processingTimes hm) \<le> 2 ^ 53 \<longrightarrow>
        (\<exists>m. avgProcessingTime (HM_getMetrics hm) = Num m \<and>
             avgProcessingTime (HM_getMetrics hm)
               = round_to_double (sum_list (hm_processingTimes hm)
                                    / of_nat (length (hm_processingTimes hm))) \<and>
             \<bar>m - sum_list (hm_processingTimes hm) / of_nat (length (hm_processingTimes hm))\<bar>
               \<le> (sum_list (hm_processingTimes hm) / of_nat (length (hm_processingTimes hm))) / 2 ^ 53))
   \<and> (hm_messageCount hm = 0 \<longrightarrow> successRate (HM_getMetrics hm) = Num 100)
   \<and> (0 < n \<and> n \<le> 2 ^ 53 \<and> 0 \<le> e \<and> e \<le> n \<and> hm_messageCount hm = n \<and> hm_errorCount hm = e \<longrightarrow>
        (\<exists>s. successRate (HM_getMetrics hm) = Num s \<and>
             successRate (HM_getMetrics hm)
               = fl_mul (fl_div (Num (of_int (n - e))) (Num (of_int n))) (Num 100) \<and>
             \<bar>s - of_int (n - e) / of_int n * 100\<bar> \<le> (of_int (n - e) / of_int n * 100) / 2 ^ 51 \<and>
             (e = 0 \<longrightarrow> s = 100) \<and> (e = n \<longrightarrow> s = 0)))
   \<and> (hm_processingTimes hm = [] \<longrightarrow> avgProcessingTime (HM_getMetrics hm) = Num 0)"
proof -
  have window: "hm_processingTimes (record_all evs hm0) = drop 50 (map (\<lambda>ev. fst (snd ev)) evs) \<and>
      length (hm_processingTimes (record_all evs hm0)) = 100 \<and>
      avgProcessingTime (HM_getMetrics (record_all evs hm0))
        = fl_div (foldl (\<lambda>a b. fl_add a (Num b)) (Num 0) (drop 50 (map (\<lambda>ev. fst (snd ev)) evs)))
                 (Num 100)"
    if m: "hm_maxSamples hm0 = 100" and l: "length (hm_processingTimes hm0) \<le> 100"
      and len: "length evs = 150"
  proof -
    let ?old = "hm_processingTimes hm0" and ?new = "map (\<lambda>ev. fst (snd ev)) evs"
    have "length ?old \<le> hm_maxSamples hm0" using m l by simp
    from record_all_window [OF this, of evs]
    have "hm_processingTimes (record_all evs hm0) = drop (length (?old @ ?new) - 100) (?old @ ?new)"
      using m by simp
    also have "length (?old @ ?new) - 100 = length ?old + 50" using len by simp
    also have "drop (length ?old + 50) (?old @ ?new) = drop 50 ?new" by simp
    finally have ts: "hm_processingTimes (record_all evs hm0) = drop 50 ?new" .
    then have ln: "length (hm_processingTimes (record_all evs hm0)) = 100" using len by simp
    have "avgProcessingTime (HM_getMetrics (record_all evs hm0))
            = fl_div (foldl (\<lambda>a b. fl_add a (Num b)) (Num 0) (hm_processingTimes (record_all evs hm0)))
                     (Num (of_nat (length (hm_processingTimes (record_all evs hm0)))))"
      using ln by (simp add: HM_getMetrics_def Let_def del: fl_div.simps fl_add.simps)
    then have "avgProcessingTime (HM_getMetrics (record_all evs hm0))
            = fl_div (foldl (\<lambda>a b. fl_add a (Num b)) (Num 0) (drop 50 ?new)) (Num 100)"
      unfolding ln unfolding ts by simp
    with ts ln show ?thesis by blast
  qed
  have fresh: "hm_maxSamples HealthMetrics_new = 100" "hm_processingTimes HealthMetrics_new = []"
    by (simp_all add: HealthMetrics_new_def)
  have whole: "\<exists>m. avgProcessingTime (HM_getMetrics hm) = Num m \<and>
             avgProcessingTime (HM_getMetrics hm)
               = round_to_double (sum_list (hm_processingTimes hm)
                                    / of_nat (length (hm_processingTimes hm))) \<and>
             \<bar>m - sum_list (hm_processingTimes hm) / of_nat (length (hm_processingTimes hm))\<bar>
               \<le> (sum_list (hm_processingTimes hm) / of_nat (length (hm_processingTimes hm))) / 2 ^ 53"
    if ne: "hm_processingTimes hm \<noteq> []" and l: "length (hm_processingTimes hm) \<le> 100"
      and w: "list_all (\<lambda>t. 0 \<le> t \<and> t = of_int \<lfloor>t\<rfloor>) (hm_processingTimes hm)"
      and s: "sum_list (hm_processingTimes hm) \<le> 2 ^ 53"
  proof -
    have pos: "0 < length (hm_processingTimes hm)" using ne by simp
    have avg: "avgProcessingTime (HM_getMetrics hm)
            = fl_div (foldl (\<lambda>a b. fl_add a (Num b)) (Num 0) (hm_processingTimes hm))
                     (Num (of_nat (length (hm_processingTimes hm))))"
      using pos by (simp add: HM_getMetrics_def Let_def del: fl_div.simps fl_add.simps)
    from mean_whole_latencies [OF w s pos l] show ?thesis
      unfolding avg by metis
  qed
  have r0: "successRate (HM_getMetrics hm) = Num 100" if "hm_messageCount hm = 0"
    using that by (simp add: HM_getMetrics_def Let_def)
  have r1: "\<exists>s. successRate (HM_getMetrics hm) = Num s \<and>
             successRate (HM_getMetrics hm)
               = fl_mul (fl_div (Num (of_int (n - e))) (Num (of_int n))) (Num 100) \<and>
             \<bar>s - of_int (n - e) / of_int n * 100\<bar> \<le> (of_int (n - e) / of_int n * 100) / 2 ^ 51 \<and>
             (e = 0 \<longrightarrow> s = 100) \<and> (e = n \<longrightarrow> s = 0)"
    if h: "0 < n \<and> n \<le> 2 ^ 53 \<and> 0 \<le> e \<and> e \<le> n \<and> hm_messageCount hm = n \<and> hm_errorCount hm = e"
  proof -
    have sub: "fl_sub (Num (of_int n)) (Num (of_int e)) = Num (of_int (n - e))"
      using h fl_sub_counters [of e n] by simp
    have rate: "successRate (HM_getMetrics hm)
            = fl_mul (fl_div (fl_sub (Num (of_int n)) (Num (of_int e))) (Num (of_int n))) (Num 100)"
      using h by (simp add: HM_getMetrics_def Let_def del: fl_mul.simps fl_div.simps fl_add.simps)
    from success_rate_double [of n e] h show ?thesis
      unfolding rate sub by metis
  qed
  have a0: "avgProcessingTime (HM_getMetrics hm) = Num 0" if "hm_processingTimes hm = []"
    using that by (simp add: HM_getMetrics_def Let_def)
  show ?thesis using window fresh whole r0 r1 a0 by blast
qed

theorem health_metrics_window_and_rates_witness:
  "(let evs = map (\<lambda>i. (even i, rat_of_nat i, \<lparr>clock = int i\<rparr>)) [0..<150];
        hm = record_all evs HealthMetrics_new
    in hm_maxSamples HealthMetrics_new = 100 \<and>
       length (hm_processingTimes HealthMetrics_new) \<le> 100 \<and> length evs = 150 \<and>
       hm_processingTimes hm = map rat_of_nat [50..<150] \<and>
       length (hm_processingTimes hm) = 100 \<and>
       hm_processingTimes hm \<noteq> [] \<and>
       list_all (\<lambda>t. 0 \<le> t \<and> t = of_int \<lfloor>t\<rfloor>) (hm_processingTimes hm) \<and>
       sum_list (hm_processingTimes hm) = 9950 \<and>
       avgProcessingTime (HM_getMetrics hm) = Num (199 / 2))
   \<and> hm_messageCount HealthMetrics_new = 0 \<and> successRate (HM_getMetrics HealthMetrics_new) = Num 100
   \<and> hm_messageCount eleven_of_twenty = 20 \<and> hm_errorCount eleven_of_twenty = 9
   \<and> successRate (HM_getMetrics eleven_of_twenty) = Num (55 + 1 / 2 ^ 47)
   \<and> \<bar>(55 + 1 / 2 ^ 47) - of_int (20 - 9) / of_int 20 * 100\<bar>
        \<le> (of_int (20 - 9) / of_int 20 * 100 :: rat) / 2 ^ 51
   \<and> hm_processingTimes HealthMetrics_new = [] \<and> avgProcessingTime (HM_getMetrics HealthMetrics_new) = Num 0"
proof -
  let ?evs = "map (\<lambda>i. (even i, rat_of_nat i, \<lparr>clock = int i\<rparr>)) [0..<150]"
  let ?hm = "record_all ?evs HealthMetrics_new"
  note inst1 = health_metrics_window_and_rates
                 [where evs = ?evs and ?hm0.0 = HealthMetrics_new and hm = ?hm and n = 0 and e = 0]
  note inst2 = health_metrics_window_and_rates
                 [where evs = ?evs and ?hm0.0 = HealthMetrics_new and hm = eleven_of_twenty
                    and n = 20 and e = 9]
  note inst3 = health_metrics_window_and_rates
                 [where evs = ?evs and ?hm0.0 = HealthMetrics_new and hm = HealthMetrics_new
                    and n = 0 and e = 0]
  have fresh: "hm_maxSamples HealthMetrics_new = 100" "hm_processingTimes HealthMetrics_new = []"
    "hm_messageCount HealthMetrics_new = 0"
    by (simp_all add: HealthMetrics_new_def)
  have len: "length ?evs = 150" by simp
  have d: "drop 50 (map (\<lambda>ev. fst (snd ev)) ?evs) = map rat_of_nat [50..<150]"
    by (simp add: drop_map)
  have ts: "hm_processingTimes ?hm = map rat_of_nat [50..<150]"
    using inst1 fresh len d by simp
  have ln: "length (hm_processingTimes ?hm) = 100" unfolding ts by simp
  have ne: "hm_processingTimes ?hm \<noteq> []" using ln by auto
  have wh: "list_all (\<lambda>t. 0 \<le> t \<and> t = of_int \<lfloor>t\<rfloor>) (hm_processingTimes ?hm)"
    unfolding ts by (simp add: list_all_iff)
  have sm: "sum_list (hm_processingTimes ?hm) = 9950"
    unfolding ts by code_simp
  have "avgProcessingTime (HM_getMetrics ?hm)
          = round_to_double (sum_list (hm_processingTimes ?hm)
                               / of_nat (length (hm_processingTimes ?hm)))"
    using inst1 ne ln wh sm by auto
  then have avg: "avgProcessingTime (HM_getMetrics ?hm) = Num (199 / 2)"
    unfolding sm ln using round_ninety_nine_and_a_half by simp
  have r0: "successRate (HM_getMetrics HealthMetrics_new) = Num 100"
    using inst3 fresh by simp
  have a0: "avgProcessingTime (HM_getMetrics HealthMetrics_new) = Num 0"
    using inst3 fresh by simp
  obtain s where s: "successRate (HM_getMetrics eleven_of_twenty) = Num s"
      "\<bar>s - of_int (20 - 9) / of_int 20 * 100\<bar> \<le> (of_int (20 - 9) / of_int 20 * 100) / 2 ^ 51"
    using inst2 eleven_of_twenty_counts by auto
  have s55: "s = 55 + 1 / 2 ^ 47" using s(1) eleven_of_twenty_rate by simp
  show ?thesis
    unfolding Let_def
    using fresh len ts ln ne wh sm avg r0 a0 eleven_of_twenty_counts s(1) s(2) s55
    by (intro conjI) simp_all
qed

theorem success_rate_not_exact_counterexample:
  "hm_messageCount eleven_of_twenty = 20 \<and> hm_errorCount eleven_of_twenty = 9 \<and>
   successRate (HM_getMetrics eleven_of_twenty) = Num (55 + 1 / 2 ^ 47) \<and>
   successRate (HM_getMetrics eleven_of_twenty) \<noteq> Num ((20 - 9) / 20 * 100)"
  by (simp add: eleven_of_twenty_counts eleven_of_twenty_rate)

section \<open>The orchestrator's queue: properties\<close>

lemma sort_key_sort_key_append:
  "sort_key f (sort_key f xs @ ys) = sort_key f (xs @ ys)"
proof (rule properties_for_sort_key)
  show "mset (sort_key f (xs @ ys)) = mset (sort_key f xs @ ys)" by simp
next
  fix k
  assume "k \<in> set (sort_key f (xs @ ys))"
  have "filter (\<lambda>x. f x = f k) (sort_key f (xs @ ys)) = filter (\<lambda>x. f x = f k) (xs @ ys)"
    by (rule sort_key_stable)
  moreover have "filter (\<lambda>x. f x = f k) (sort_key f xs) = filter (\<lambda>x. f x = f k) xs"
    by (rule sort_key_stable)
  ultimately show "filter (\<lambda>x. f k = f x) (sort_key f (xs @ ys)) = filter (\<lambda>x. f k = f x) (sort_key f xs @ ys)"
    by (simp add: eq_commute [of "f k"])
next
  show "sorted (map f (sort_key f (xs @ ys)))" by simp
qed

lemma priority_above_iff:
  "0 \<le> b \<Longrightarrow> priority_above m b = (\<exists>p. priority m = Some p \<and> b < p)"
  by (auto simp: priority_above_def split: option.splits)

lemma priority_above_mono: "priority_above m 5 \<Longrightarrow> priority_above m 2"
  by (auto simp: priority_above_def split: option.splits)

lemma PMQ_enqueue_tiers:
  shows "pq_high (PMQ_enqueue m q w) =
           sort_key addedAt (pq_high q @ (if priority_above m 5 then [\<lparr>qi_message = m, addedAt = clock w\<rparr>] else []))"
    and "pq_normal (PMQ_enqueue m q w) =
           sort_key addedAt (pq_normal q @
             (if priority_above m 2 \<and> \<not> priority_above m 5 then [\<lparr>qi_message = m, addedAt = clock w\<rparr>] else []))"
    and "pq_low (PMQ_enqueue m q w) =
           sort_key addedAt (pq_low q @ (if \<not> priority_above m 2 then [\<lparr>qi_message = m, addedAt = clock w\<rparr>] else []))"
    and "pq_isProcessing (PMQ_enqueue m q w) = pq_isProcessing q"
  using priority_above_mono [of m]
  by (auto simp: PMQ_enqueue_def sortQueues_def Let_def)

lemma enqueue_all_tiers:
  fixes ms :: "('p BaseAgentMessage \<times> 'm world_scheme) list"
  assumes "sort_key addedAt (pq_high q) = pq_high q"
    and "sort_key addedAt (pq_normal q) = pq_normal q"
    and "sort_key addedAt (pq_low q) = pq_low q"
  shows "pq_high (enqueue_all ms q) =
           sort_key addedAt (pq_high q @ filter (\<lambda>i. priority_above (qi_message i) 5)
             (map (\<lambda>mw. \<lparr>qi_message = fst mw, addedAt = clock (snd mw)\<rparr>) ms))
       \<and> pq_normal (enqueue_all ms q) =
           sort_key addedAt (pq_normal q @
             filter (\<lambda>i. priority_above (qi_message i) 2 \<and> \<not> priority_above (qi_message i) 5)
               (map (\<lambda>mw. \<lparr>qi_message = fst mw, addedAt = clock (snd mw)\<rparr>) ms))
       \<and> pq_low (enqueue_all ms q) =
           sort_key addedAt (pq_low q @ filter (\<lambda>i. \<not> priority_above (qi_message i) 2)
             (map (\<lambda>mw. \<lparr>qi_message = fst mw, addedAt = clock (snd mw)\<rparr>) ms))"
  using assms
proof (induction ms arbitrary: q)
  case Nil
  then show ?case by simp
next
  case (Cons mw ms)
  obtain m w where mw: "mw = (m, w)" by (cases mw)
  let ?q = "PMQ_enqueue m q w"
  have s: "sort_key addedAt (pq_high ?q) = pq_high ?q"
      "sort_key addedAt (pq_normal ?q) = pq_normal ?q"
      "sort_key addedAt (pq_low ?q) = pq_low ?q"
    unfolding PMQ_enqueue_tiers by (simp_all add: sort_key_id_if_sorted)
  show ?case
    using Cons.IH [OF s]
    by (auto simp: mw PMQ_enqueue_tiers sort_key_sort_key_append)
qed

lemma map_hd_tl: "xs \<noteq> [] \<Longrightarrow> f (hd xs) # map f (tl xs) = map f xs"
  by (cases xs) simp_all

lemma dequeue_all_tiers:
  "dequeue_all q = map qi_message (pq_high q @ pq_normal q @ pq_low q)"
proof (induction q rule: dequeue_all.induct)
  case (1 q)
  show ?case
  proof (cases "PMQ_dequeue q")
    case (Pair r q')
    show ?thesis
    proof (cases r)
      case None
      with Pair have "pq_high q = [] \<and> pq_normal q = [] \<and> pq_low q = []"
        by (auto simp: PMQ_dequeue_def dequeueItem_def split: if_splits list.splits)
      with Pair None show ?thesis by (subst dequeue_all.simps) simp
    next
      case (Some m)
      have ih: "dequeue_all q' = map qi_message (pq_high q' @ pq_normal q' @ pq_low q')"
        using "1.IH" Pair Some by simp
      have "m # map qi_message (pq_high q' @ pq_normal q' @ pq_low q')
              = map qi_message (pq_high q @ pq_normal q @ pq_low q)"
        using Pair Some
        by (auto simp: PMQ_dequeue_def dequeueItem_def map_hd_tl split: if_splits list.splits)
      with Pair Some ih show ?thesis by (subst dequeue_all.simps) simp
    qed
  qed
qed

lemma dequeueItem_cases:
  shows "pq_high q \<noteq> [] \<Longrightarrow>
           dequeueItem q = (Some (hd (pq_high q)), q\<lparr>pq_high := tl (pq_high q)\<rparr>)"
    and "pq_high q = [] \<Longrightarrow> pq_normal q \<noteq> [] \<Longrightarrow>
           dequeueItem q = (Some (hd (pq_normal q)), q\<lparr>pq_normal := tl (pq_normal q)\<rparr>)"
    and "pq_high q = [] \<Longrightarrow> pq_normal q = [] \<Longrightarrow> pq_low q \<noteq> [] \<Longrightarrow>
           dequeueItem q = (Some (hd (pq_low q)), q\<lparr>pq_low := tl (pq_low q)\<rparr>)"
    and "pq_high q = [] \<Longrightarrow> pq_normal q = [] \<Longrightarrow> pq_low q = [] \<Longrightarrow> dequeueItem q = (None, q)"
  by (auto simp: dequeueItem_def split: list.splits)

lemma filter_items_messages:
  "map qi_message (filter (\<lambda>i. P (qi_message i))
      (map (\<lambda>mw. \<lparr>qi_message = fst mw, addedAt = clock (snd mw)\<rparr>) ms)) = filter P (map fst ms)"
  by (induction ms) simp_all

text \<open>
  Claim C4 (three-tier queue).  \<open>priority_above m b\<close> is the source's test
  \<^verbatim>\<open>m.priority && m.priority > b\<close>; for the bounds 5 and 2 it holds exactly when the
  priority is present and greater than the bound.  An enqueue adds the new item to the
  high tier iff the priority is above 5, to the normal tier iff it is above 2 and not above
  5, to the low tier otherwise (absent priority included), changes no tier otherwise, and
  leaves every tier sorted by enqueue time.  A dequeue returns the head of the first
  non-empty tier in the order high, normal, low, and removes it; it returns nothing on an
  empty queue.  Draining a queue filled from empty yields, tier by tier, the messages in
  ascending order of enqueue time, arrival order deciding between equal times; when the
  clock does not run backwards between the enqueues this is arrival order within each tier.
\<close>

theorem priority_queue_tiers_and_fifo:
  fixes ms :: "('p BaseAgentMessage \<times> 'm world_scheme) list" and w :: "'m world_scheme"
  shows
  "priority_above m 5 = (\<exists>p. priority m = Some p \<and> 5 < p)
   \<and> priority_above m 2 = (\<exists>p. priority m = Some p \<and> 2 < p)
   \<and> (let q' = PMQ_enqueue m q w; item = \<lparr>qi_message = m, addedAt = clock w\<rparr> in
        mset (pq_high q') =
          (if priority_above m 5 then add_mset item (mset (pq_high q)) else mset (pq_high q)) \<and>
        mset (pq_normal q') =
          (if priority_above m 2 \<and> \<not> priority_above m 5
           then add_mset item (mset (pq_normal q)) else mset (pq_normal q)) \<and>
        mset (pq_low q') =
          (if \<not> priority_above m 2 then add_mset item (mset (pq_low q)) else mset (pq_low q)) \<and>
        sorted (map addedAt (pq_high q')) \<and> sorted (map addedAt (pq_normal q')) \<and>
        sorted (map addedAt (pq_low q')))
   \<and> (pq_high q \<noteq> [] \<longrightarrow>
        PMQ_dequeue q = (Some (qi_message (hd (pq_high q))), q\<lparr>pq_high := tl (pq_high q)\<rparr>))
   \<and> (pq_high q = [] \<and> pq_normal q \<noteq> [] \<longrightarrow>
        PMQ_dequeue q = (Some (qi_message (hd (pq_normal q))), q\<lparr>pq_normal := tl (pq_normal q)\<rparr>))
   \<and> (pq_high q = [] \<and> pq_normal q = [] \<and> pq_low q \<noteq> [] \<longrightarrow>
        PMQ_dequeue q = (Some (qi_message (hd (pq_low q))), q\<lparr>pq_low := tl (pq_low q)\<rparr>))
   \<and> (pq_high q = [] \<and> pq_normal q = [] \<and> pq_low q = [] \<longrightarrow> PMQ_dequeue q = (None, q))
   \<and> (let items = map (\<lambda>mw. \<lparr>qi_message = fst mw, addedAt = clock (snd mw)\<rparr>) ms in
        dequeue_all (enqueue_all ms PriorityMessageQueue_new) =
          map qi_message
            (sort_key addedAt (filter (\<lambda>i. priority_above (qi_message i) 5) items) @
             sort_key addedAt (filter (\<lambda>i. priority_above (qi_message i) 2 \<and>
                                            \<not> priority_above (qi_message i) 5) items) @
             sort_key addedAt (filter (\<lambda>i. \<not> priority_above (qi_message i) 2) items)))
   \<and> (sorted (map (\<lambda>mw. clock (snd mw)) ms) \<longrightarrow>
        dequeue_all (enqueue_all ms PriorityMessageQueue_new) =
          filter (\<lambda>m. priority_above m 5) (map fst ms) @
          filter (\<lambda>m. priority_above m 2 \<and> \<not> priority_above m 5) (map fst ms) @
          filter (\<lambda>m. \<not> priority_above m 2) (map fst ms))"
proof -
  let ?items = "map (\<lambda>mw. \<lparr>qi_message = fst mw, addedAt = clock (snd mw)\<rparr>) ms"
  let ?new = "PriorityMessageQueue_new :: 'p PriorityMessageQueue"
  have p5: "priority_above m 5 = (\<exists>p. priority m = Some p \<and> 5 < p)"
    by (rule priority_above_iff) simp
  have p2: "priority_above m 2 = (\<exists>p. priority m = Some p \<and> 2 < p)"
    by (rule priority_above_iff) simp
  have enq: "let q' = PMQ_enqueue m q w; item = \<lparr>qi_message = m, addedAt = clock w\<rparr> in
        mset (pq_high q') =
          (if priority_above m 5 then add_mset item (mset (pq_high q)) else mset (pq_high q)) \<and>
        mset (pq_normal q') =
          (if priority_above m 2 \<and> \<not> priority_above m 5
           then add_mset item (mset (pq_normal q)) else mset (pq_normal q)) \<and>
        mset (pq_low q') =
          (if \<not> priority_above m 2 then add_mset item (mset (pq_low q)) else mset (pq_low q)) \<and>
        sorted (map addedAt (pq_high q')) \<and> sorted (map addedAt (pq_normal q')) \<and>
        sorted (map addedAt (pq_low q'))"
    unfolding Let_def PMQ_enqueue_tiers by simp
  have d1: "pq_high q \<noteq> [] \<longrightarrow>
        PMQ_dequeue q = (Some (qi_message (hd (pq_high q))), q\<lparr>pq_high := tl (pq_high q)\<rparr>)"
    by (simp add: PMQ_dequeue_def dequeueItem_cases(1))
  have d2: "pq_high q = [] \<and> pq_normal q \<noteq> [] \<longrightarrow>
        PMQ_dequeue q = (Some (qi_message (hd (pq_normal q))), q\<lparr>pq_normal := tl (pq_normal q)\<rparr>)"
    by (simp add: PMQ_dequeue_def dequeueItem_cases(2))
  have d3: "pq_high q = [] \<and> pq_normal q = [] \<and> pq_low q \<noteq> [] \<longrightarrow>
        PMQ_dequeue q = (Some (qi_message (hd (pq_low q))), q\<lparr>pq_low := tl (pq_low q)\<rparr>)"
    by (simp add: PMQ_dequeue_def dequeueItem_cases(3))
  have d4: "pq_high q = [] \<and> pq_normal q = [] \<and> pq_low q = [] \<longrightarrow> PMQ_dequeue q = (None, q)"
    by (simp add: PMQ_dequeue_def dequeueItem_cases(4))
  have tiers: "pq_high (enqueue_all ms ?new) =
                 sort_key addedAt (filter (\<lambda>i. priority_above (qi_message i) 5) ?items)"
      "pq_normal (enqueue_all ms ?new) =
         sort_key addedAt (filter (\<lambda>i. priority_above (qi_message i) 2 \<and>
                                        \<not> priority_above (qi_message i) 5) ?items)"
      "pq_low (enqueue_all ms ?new) =
         sort_key addedAt (filter (\<lambda>i. \<not> priority_above (qi_message i) 2) ?items)"
    using enqueue_all_tiers [of ?new ms] by (simp_all add: PriorityMessageQueue_new_def)
  have run: "dequeue_all (enqueue_all ms ?new) =
          map qi_message
            (sort_key addedAt (filter (\<lambda>i. priority_above (qi_message i) 5) ?items) @
             sort_key addedAt (filter (\<lambda>i. priority_above (qi_message i) 2 \<and>
                                            \<not> priority_above (qi_message i) 5) ?items) @
             sort_key addedAt (filter (\<lambda>i. \<not> priority_above (qi_message i) 2) ?items))"
    unfolding dequeue_all_tiers tiers ..
  have fifo: "dequeue_all (enqueue_all ms ?new) =
          filter (\<lambda>m. priority_above m 5) (map fst ms) @
          filter (\<lambda>m. priority_above m 2 \<and> \<not> priority_above m 5) (map fst ms) @
          filter (\<lambda>m. \<not> priority_above m 2) (map fst ms)"
    if mono: "sorted (map (\<lambda>mw. clock (snd mw)) ms)"
  proof -
    have "sorted (map addedAt ?items)" using mono by (simp add: comp_def)
    then have "sort_key addedAt (filter P ?items) = filter P ?items" for P
      by (intro sort_key_id_if_sorted sorted_filter)
    then show ?thesis
      unfolding run
      using filter_items_messages [of "\<lambda>m. priority_above m 5" ms]
        filter_items_messages [of "\<lambda>m. priority_above m 2 \<and> \<not> priority_above m 5" ms]
        filter_items_messages [of "\<lambda>m. \<not> priority_above m 2" ms]
      by simp
  qed
  show ?thesis
    using p5 p2 enq d1 d2 d3 d4 run fifo unfolding Let_def by blast
qed

theorem priority_queue_tiers_and_fifo_witness:
  "(let mk = (\<lambda>i p. \<lparr>msg_id = i, msg_type = ''TEST'', targetAgent = ''worker'', payload = (),
                        priority = p, timestamp = None\<rparr>);
        a = mk ''a'' (Some 1); b = mk ''b'' (Some 3); c = mk ''c'' (Some 2);
        d = mk ''d'' (Some 7); e = mk ''e'' None; f = mk ''f'' (Some 6);
        ms = [(a, \<lparr>clock = 10\<rparr>), (b, \<lparr>clock = 20\<rparr>), (c, \<lparr>clock = 30\<rparr>),
              (d, \<lparr>clock = 40\<rparr>), (e, \<lparr>clock = 50\<rparr>), (f, \<lparr>clock = 60\<rparr>)];
        qh = \<lparr>pq_high = [\<lparr>qi_message = d, addedAt = 40\<rparr>],
              pq_normal = [\<lparr>qi_message = b, addedAt = 20\<rparr>],
              pq_low = [\<lparr>qi_message = a, addedAt = 10\<rparr>], pq_isProcessing = False\<rparr>;
        qn = qh\<lparr>pq_high := []\<rparr>;
        ql = qn\<lparr>pq_normal := []\<rparr>;
        qe = ql\<lparr>pq_low := []\<rparr>
    in sorted (map (\<lambda>mw. clock (snd mw)) ms) \<and>
       dequeue_all (enqueue_all ms PriorityMessageQueue_new) = [d, f, b, a, c, e] \<and>
       pq_high qh \<noteq> [] \<and> PMQ_dequeue qh = (Some d, qn) \<and>
       pq_high qn = [] \<and> pq_normal qn \<noteq> [] \<and> PMQ_dequeue qn = (Some b, ql) \<and>
       pq_high ql = [] \<and> pq_normal ql = [] \<and> pq_low ql \<noteq> [] \<and> PMQ_dequeue ql = (Some a, qe) \<and>
       pq_high qe = [] \<and> pq_normal qe = [] \<and> pq_low qe = [] \<and> PMQ_dequeue qe = (None, qe))"
proof -
  let ?mk = "\<lambda>i p. \<lparr>msg_id = i, msg_type = ''TEST'', targetAgent = ''worker'', payload = (),
                        priority = p, timestamp = None\<rparr>"
  let ?a = "?mk ''a'' (Some 1)" and ?b = "?mk ''b'' (Some 3)" and ?c = "?mk ''c'' (Some 2)"
  let ?d = "?mk ''d'' (Some 7)" and ?e = "?mk ''e'' None" and ?f = "?mk ''f'' (Some 6)"
  let ?ms = "[(?a, \<lparr>clock = 10\<rparr>), (?b, \<lparr>clock = 20\<rparr>), (?c, \<lparr>clock = 30\<rparr>),
              (?d, \<lparr>clock = 40\<rparr>), (?e, \<lparr>clock = 50\<rparr>), (?f, \<lparr>clock = 60\<rparr>)]"
  let ?qh = "\<lparr>pq_high = [\<lparr>qi_message = ?d, addedAt = 40\<rparr>],
              pq_normal = [\<lparr>qi_message = ?b, addedAt = 20\<rparr>],
              pq_low = [\<lparr>qi_message = ?a, addedAt = 10\<rparr>], pq_isProcessing = False\<rparr>"
  let ?qn = "?qh\<lparr>pq_high := []\<rparr>"
  let ?ql = "?qn\<lparr>pq_normal := []\<rparr>"
  let ?qe = "?ql\<lparr>pq_low := []\<rparr>"
  show ?thesis
    using priority_queue_tiers_and_fifo [where ms = ?ms and q = ?qh and m = ?d and w = "\<lparr>clock = 40\<rparr>"]
      priority_queue_tiers_and_fifo [where ms = ?ms and q = ?qn and m = ?d and w = "\<lparr>clock = 40\<rparr>"]
      priority_queue_tiers_and_fifo [where ms = ?ms and q = ?ql and m = ?d and w = "\<lparr>clock = 40\<rparr>"]
      priority_queue_tiers_and_fifo [where ms = ?ms and q = ?qe and m = ?d and w = "\<lparr>clock = 40\<rparr>"]
    by (simp add: Let_def priority_above_def)
qed

section \<open>Queue capacity and clearing: properties\<close>

text \<open>
  Claim C10 (what \<open>clear\<close> leaves alone).  Clearing the orchestrator's queue empties the
  three tiers, so its size is 0, and keeps the \<open>isProcessing\<close> flag as it was; enqueue
  and dequeue keep the flag too, so only the setter (which the drain loop calls) changes
  it.  Clearing a per-agent queue empties it and sets its processing flag to false.
\<close>

theorem queue_clear_frame:
  "PMQ_size (PMQ_clear q) = 0
   \<and> pq_high (PMQ_clear q) = [] \<and> pq_normal (PMQ_clear q) = [] \<and> pq_low (PMQ_clear q) = []
   \<and> pq_isProcessing (PMQ_clear q) = pq_isProcessing q
   \<and> pq_isProcessing (PMQ_enqueue m q w) = pq_isProcessing q
   \<and> pq_isProcessing (snd (PMQ_dequeue q)) = pq_isProcessing q
   \<and> pq_isProcessing (PMQ_set_isProcessing v q) = v
   \<and> mq_queue (MQ_clear mq) = [] \<and> mq_processing (MQ_clear mq) = False"
  by (simp add: PMQ_size_def PMQ_clear_def PMQ_enqueue_def sortQueues_def PMQ_dequeue_def
        dequeueItem_def PMQ_set_isProcessing_def MQ_clear_def Let_def split: list.splits)

lemma MQ_enqueue_full:
  assumes "int (length (mq_queue mq)) \<ge> mq_maxSize mq"
  shows "MQ_enqueue message mq w =
           (Inl (AgentErr \<lparr>err_type = Some QUEUE_FULL, err_message = ''Queue is full''\<rparr>), mq, w)"
  using assms by (simp add: MQ_enqueue_def AgentError_new_def)

lemma MQ_enqueue_not_full_while_processing:
  assumes "int (length (mq_queue mq)) < mq_maxSize mq" and "mq_processing mq"
  shows "fst (MQ_enqueue message mq w) = Inr ()"
    and "length (mq_queue (fst (snd (MQ_enqueue message mq w)))) = length (mq_queue mq) + 1"
  using assms by (auto simp: MQ_enqueue_def Let_def splice_in_def)

text \<open>
  Claim C6 (capacity of an agent's own queue), evaluated.  An agent built with
  \<open>maxQueueSize = 2\<close> holds a queue whose size limit is the default 100 and whose
  callback slot holds the number 2.  Each of three enqueues inserts the message, starts
  the drain because the queue is idle, takes the message out again and fails with the
  runtime's \<^verbatim>\<open>TypeError\<close> when the number is called; the queue is empty after each.
  A queue built directly with a callback that succeeds and a limit of 2, as the
  repository's own test does, accepts all three enqueues, since each enqueue drains the
  queue before it returns.
\<close>

theorem base_agent_queue_capacity_two:
  "(let mk = (\<lambda>i. \<lparr>msg_id = i, msg_type = ''TEST'', targetAgent = ''worker'', payload = (),
                      priority = None, timestamp = None\<rparr>);
        parse = (\<lambda>m :: unit BaseAgentMessage. Inr m :: string option + unit BaseAgentMessage);
        agent0 = BaseAgent_new \<lparr>ac_name = ''worker'', ac_maxRetries = None, ac_maxQueueSize = Some 2,
                                ac_maxConcurrentTasks = None, ac_timeoutMs = None\<rparr> \<lparr>clock = 0\<rparr>;
        (r1, agent1, w1) = enqueueMessage parse (mk ''1'') agent0 \<lparr>clock = 1\<rparr>;
        (r2, agent2, w2) = enqueueMessage parse (mk ''2'') agent1 \<lparr>clock = 2\<rparr>;
        (r3, agent3, w3) = enqueueMessage parse (mk ''3'') agent2 \<lparr>clock = 3\<rparr>
    in mq_maxSize (ba_messageQueue agent0) = 100 \<and>
       mq_processCallback (ba_messageQueue agent0) = Inl 2 \<and>
       r1 = Inl (TypeError ''this.processCallback is not a function'') \<and>
       r2 = Inl (TypeError ''this.processCallback is not a function'') \<and>
       r3 = Inl (TypeError ''this.processCallback is not a function'') \<and>
       MQ_size (ba_messageQueue agent1) = 0 \<and> MQ_size (ba_messageQueue agent2) = 0 \<and>
       MQ_size (ba_messageQueue agent3) = 0)
   \<and> (let mk = (\<lambda>i. \<lparr>msg_id = i, msg_type = ''TEST'', targetAgent = ''worker'', payload = (),
                      priority = None, timestamp = None\<rparr>);
        smallQueue = MessageQueue_new (Inr (\<lambda>m (w :: world). (None, w))) (Some 2);
        (r1, q1, w1) = MQ_enqueue (mk ''1'') smallQueue \<lparr>clock = 1\<rparr>;
        (r2, q2, w2) = MQ_enqueue (mk ''2'') q1 \<lparr>clock = 2\<rparr>;
        (r3, q3, w3) = MQ_enqueue (mk ''3'') q2 \<lparr>clock = 3\<rparr>
    in r1 = Inr () \<and> r2 = Inr () \<and> r3 = Inr () \<and>
       MQ_size q1 = 0 \<and> MQ_size q2 = 0 \<and> MQ_size q3 = 0)"
  by (simp add: BaseAgent_new_def enqueueMessage_def BA_validateMessage_def MQ_enqueue_def
        MessageQueue_new_def nullish_def processNextMessage.simps MQ_dequeue_def MQ_size_def
        findIndex_def findLastIndex_def msg_priority_def Let_def)

section \<open>Retry helper: properties\<close>








section \<open>Orchestrator: properties\<close>

lemma PMQ_size_enqueue: "PMQ_size (PMQ_enqueue m q w) = PMQ_size q + 1"
  by (simp add: PMQ_size_def PMQ_enqueue_def sortQueues_def Let_def)

lemma PMQ_size_dequeue:
  "PMQ_dequeue q = (Some m, q1) \<Longrightarrow> PMQ_size q = PMQ_size q1 + 1"
  by (auto simp: PMQ_dequeue_def dequeueItem_def PMQ_size_def split: if_splits list.splits)

lemma validateMessage_malformed:
  "parse raw = Inl z \<Longrightarrow> \<exists>err. validateMessage parse raw = Inl err \<and> err_type err = Some VALIDATION"
  by (cases z) (simp_all add: validateMessage_def AgentError_new3_def AgentError_new_def)

lemma validateMessage_wellformed:
  "parse raw = Inr m \<Longrightarrow> validateMessage parse raw = Inr m"
  by (simp add: validateMessage_def)

text \<open>
  Claim C5 (accepting a message), as the code has it.  \<open>processMessage\<close> validates first:
  a malformed message fails with a VALIDATION error whatever the size of the queue, the
  orchestrator is unchanged and no drain is started.  A well-formed message fails, with
  the orchestrator unchanged and no drain started, when the queue's size is at or above
  \<open>maxQueueSize\<close> (1000 when not configured).  Otherwise the message is enqueued into the
  three-tier queue, whose size grows by one, and the drain loop is started exactly when
  \<open>isProcessing\<close> is not already true.
\<close>

theorem processMessage_validates_then_checks_capacity:
  "(parse raw = Inl z \<longrightarrow>
      (\<exists>err. OA_processMessage parse raw oa w = (Inl err, oa, False) \<and> err_type err = Some VALIDATION))
   \<and> (parse raw = Inr m \<and>
        int (PMQ_size (oa_messageQueue oa)) \<ge> nullish (ac_maxQueueSize (oa_config oa)) 1000 \<longrightarrow>
        (\<exists>err. OA_processMessage parse raw oa w = (Inl err, oa, False)))
   \<and> (parse raw = Inr m \<and>
        int (PMQ_size (oa_messageQueue oa)) < nullish (ac_maxQueueSize (oa_config oa)) 1000 \<longrightarrow>
        OA_processMessage parse raw oa w =
          (Inr (), oa\<lparr>oa_messageQueue := PMQ_enqueue m (oa_messageQueue oa) w\<rparr>,
           \<not> pq_isProcessing (oa_messageQueue oa)) \<and>
        PMQ_size (PMQ_enqueue m (oa_messageQueue oa) w) = PMQ_size (oa_messageQueue oa) + 1)"
proof -
  have p1: "\<exists>err. OA_processMessage parse raw oa w = (Inl err, oa, False) \<and> err_type err = Some VALIDATION"
    if h: "parse raw = Inl z"
  proof -
    obtain err where "validateMessage parse raw = Inl err" "err_type err = Some VALIDATION"
      using h validateMessage_malformed [where parse = parse and raw = raw and z = z] by blast
    then show ?thesis by (simp add: OA_processMessage_def)
  qed
  have v: "validateMessage parse raw = Inr m" if "parse raw = Inr m"
    using that validateMessage_wellformed [where parse = parse and raw = raw and m = m] by simp
  have p2: "\<exists>err. OA_processMessage parse raw oa w = (Inl err, oa, False)"
    if "parse raw = Inr m"
      and "int (PMQ_size (oa_messageQueue oa)) \<ge> nullish (ac_maxQueueSize (oa_config oa)) 1000"
    using that by (simp add: OA_processMessage_def v)
  have flag: "pq_isProcessing (PMQ_enqueue m (oa_messageQueue oa) w) = pq_isProcessing (oa_messageQueue oa)"
    by (simp add: PMQ_enqueue_def sortQueues_def Let_def)
  have p3: "OA_processMessage parse raw oa w =
          (Inr (), oa\<lparr>oa_messageQueue := PMQ_enqueue m (oa_messageQueue oa) w\<rparr>,
           \<not> pq_isProcessing (oa_messageQueue oa))"
    if "parse raw = Inr m"
      and "int (PMQ_size (oa_messageQueue oa)) < nullish (ac_maxQueueSize (oa_config oa)) 1000"
    using that flag by (simp add: OA_processMessage_def v Let_def)
  have p4: "PMQ_size (PMQ_enqueue m (oa_messageQueue oa) w) = PMQ_size (oa_messageQueue oa) + 1"
    by (rule PMQ_size_enqueue)
  show ?thesis using p1 p2 p3 p4 by blast
qed

theorem processMessage_validates_then_checks_capacity_witness:
  "schema_parse None = Inl (Some ''Required'')
   \<and> (\<exists>err. OA_processMessage schema_parse None full_orchestrator \<lparr>clock = 500\<rparr>
               = (Inl err, full_orchestrator, False) \<and> err_type err = Some VALIDATION)
   \<and> schema_parse (Some sample_message) = Inr sample_message
   \<and> int (PMQ_size (oa_messageQueue full_orchestrator))
        \<ge> nullish (ac_maxQueueSize (oa_config full_orchestrator)) 1000
   \<and> (\<exists>err. OA_processMessage schema_parse (Some sample_message) full_orchestrator \<lparr>clock = 500\<rparr>
               = (Inl err, full_orchestrator, False))
   \<and> int (PMQ_size (oa_messageQueue (full_orchestrator\<lparr>oa_messageQueue := PriorityMessageQueue_new\<rparr>)))
        < nullish (ac_maxQueueSize (oa_config (full_orchestrator\<lparr>oa_messageQueue := PriorityMessageQueue_new\<rparr>))) 1000
   \<and> OA_processMessage schema_parse (Some sample_message)
        (full_orchestrator\<lparr>oa_messageQueue := PriorityMessageQueue_new\<rparr>) \<lparr>clock = 500\<rparr>
       = (Inr (),
          full_orchestrator\<lparr>oa_messageQueue :=
            \<lparr>pq_high = [], pq_normal = [\<lparr>qi_message = sample_message, addedAt = 500\<rparr>], pq_low = [],
             pq_isProcessing = False\<rparr>\<rparr>,
          True)"
  using processMessage_validates_then_checks_capacity
          [where parse = schema_parse and raw = None and z = "Some ''Required''"
             and oa = full_orchestrator and w = "\<lparr>clock = 500\<rparr>" and m = sample_message]
        processMessage_validates_then_checks_capacity
          [where parse = schema_parse and raw = "Some sample_message" and z = "Some ''Required''"
             and oa = full_orchestrator and w = "\<lparr>clock = 500\<rparr>" and m = sample_message]
        processMessage_validates_then_checks_capacity
          [where parse = schema_parse and raw = "Some sample_message" and z = "Some ''Required''"
             and oa = "full_orchestrator\<lparr>oa_messageQueue := PriorityMessageQueue_new\<rparr>"
             and w = "\<lparr>clock = 500\<rparr>" and m = sample_message]
  by (simp add: schema_parse_def full_orchestrator_def sample_message_def nullish_def PMQ_size_def
        PriorityMessageQueue_new_def PMQ_enqueue_def sortQueues_def priority_above_def Let_def)

theorem processMessage_full_queue_counterexample:
  "int (PMQ_size (oa_messageQueue full_orchestrator))
      \<ge> nullish (ac_maxQueueSize (oa_config full_orchestrator)) 1000
   \<and> OA_processMessage schema_parse None full_orchestrator \<lparr>clock = 500\<rparr>
       = (Inl \<lparr>err_type = Some VALIDATION, err_message = ''Invalid message format: Required''\<rparr>,
          full_orchestrator, False)"
  by (simp add: OA_processMessage_def validateMessage_def schema_parse_def full_orchestrator_def
        AgentError_new3_def AgentError_new_def nullish_def PMQ_size_def)

lemma OA_processMessage_ignores_agents:
  "fst (OA_processMessage parse raw (oa\<lparr>oa_agents := agents, oa_agentStates := states\<rparr>) w)
     = fst (OA_processMessage parse raw oa w)"
  by (simp add: OA_processMessage_def Let_def split: sum.splits)

text \<open>
  Claim C7 (requeue or drop).  Take a turn of the drain loop in which the dequeued
  message's target is registered (present in both maps) and is not healthy.  If the
  target's \<open>errorCount\<close> is below \<open>maxRetries\<close> (3 when not configured) the message is
  enqueued again and the queue has the size it had before the turn.  Otherwise the message
  is dropped: the queue is the one the dequeue left, one message shorter.  Either way the
  turn ends normally and the loop goes on; and whether \<open>processMessage\<close> fails for the
  enqueuer never depends on the registered agents or their states.
\<close>

theorem drain_requeues_or_drops_unhealthy:
  assumes "PMQ_dequeue (oa_messageQueue oa) = (Some message, q1)"
    and "Map_get (oa_agents oa) (targetAgent message) = Some agent"
    and "Map_get (oa_agentStates oa) (targetAgent message) = Some stateInfo"
    and "\<not> isAgentHealthy (targetAgent message) oa w"
  shows "(asi_errorCount stateInfo < nullish (ac_maxRetries (oa_config oa)) 3 \<longrightarrow>
            drain_turn oa w = (Requeued, oa\<lparr>oa_messageQueue := PMQ_enqueue message q1 w\<rparr>) \<and>
            PMQ_size (oa_messageQueue (snd (drain_turn oa w))) = PMQ_size (oa_messageQueue oa))
       \<and> (asi_errorCount stateInfo \<ge> nullish (ac_maxRetries (oa_config oa)) 3 \<longrightarrow>
            drain_turn oa w = (Dropped, oa\<lparr>oa_messageQueue := q1\<rparr>) \<and>
            PMQ_size (oa_messageQueue (snd (drain_turn oa w))) + 1 = PMQ_size (oa_messageQueue oa))
       \<and> fst (OA_processMessage parse raw (oa\<lparr>oa_agents := agents, oa_agentStates := states\<rparr>) w')
            = fst (OA_processMessage parse raw oa w')"
proof -
  have sz: "PMQ_size (oa_messageQueue oa) = PMQ_size q1 + 1"
    using assms(1) by (rule PMQ_size_dequeue)
  then have pos: "PMQ_size (oa_messageQueue oa) > 0" by simp
  have requeue: "drain_turn oa w = (Requeued, oa\<lparr>oa_messageQueue := PMQ_enqueue message q1 w\<rparr>)"
    if "asi_errorCount stateInfo < nullish (ac_maxRetries (oa_config oa)) 3"
    using that assms pos by (simp add: drain_turn_def)
  have drop: "drain_turn oa w = (Dropped, oa\<lparr>oa_messageQueue := q1\<rparr>)"
    if "asi_errorCount stateInfo \<ge> nullish (ac_maxRetries (oa_config oa)) 3"
    using that assms pos by (simp add: drain_turn_def)
  show ?thesis
    using requeue drop sz PMQ_size_enqueue [of message q1 w]
      OA_processMessage_ignores_agents [where parse = parse and raw = raw and oa = oa and w = w'
        and agents = agents and states = states]
    by auto
qed

theorem drain_requeues_or_drops_unhealthy_witness:
  "(let si = (\<lambda>n. \<lparr>asi_state = ERROR, asi_lastActiveTime = 400, asi_errorCount = n,
                      asi_circuitBreaker = open_breaker\<lparr>cb_state := CLOSED\<rparr>,
                      asi_healthMetrics = HealthMetrics_new\<rparr>);
        ag = \<lparr>agent_state = ERROR, agent_lastActiveTime = 400\<rparr>;
        oa = (\<lambda>n. full_orchestrator\<lparr>oa_agents := [(''eslint'', ag)],
                                      oa_agentStates := [(''eslint'', si n)]\<rparr>);
        emptied = \<lparr>pq_high = [], pq_normal = [], pq_low = [], pq_isProcessing = True\<rparr>;
        w = \<lparr>clock = 500\<rparr>
    in PMQ_dequeue (oa_messageQueue (oa 1)) = (Some sample_message, emptied) \<and>
       Map_get (oa_agents (oa 1)) (targetAgent sample_message) = Some ag \<and>
       Map_get (oa_agentStates (oa 1)) (targetAgent sample_message) = Some (si 1) \<and>
       \<not> isAgentHealthy (targetAgent sample_message) (oa 1) w \<and>
       asi_errorCount (si 1) < nullish (ac_maxRetries (oa_config (oa 1))) 3 \<and>
       drain_turn (oa 1) w =
         (Requeued, (oa 1)\<lparr>oa_messageQueue :=
            emptied\<lparr>pq_normal := [\<lparr>qi_message = sample_message, addedAt = 500\<rparr>]\<rparr>\<rparr>) \<and>
       PMQ_size (oa_messageQueue (oa 1)) = 1 \<and>
       PMQ_size (oa_messageQueue (snd (drain_turn (oa 1) w))) = 1 \<and>
       PMQ_dequeue (oa_messageQueue (oa 3)) = (Some sample_message, emptied) \<and>
       \<not> isAgentHealthy (targetAgent sample_message) (oa 3) w \<and>
       asi_errorCount (si 3) \<ge> nullish (ac_maxRetries (oa_config (oa 3))) 3 \<and>
       drain_turn (oa 3) w = (Dropped, (oa 3)\<lparr>oa_messageQueue := emptied\<rparr>) \<and>
       PMQ_size (oa_messageQueue (snd (drain_turn (oa 3) w))) = 0)"
proof -
  let ?si = "\<lambda>n. \<lparr>asi_state = ERROR, asi_lastActiveTime = 400, asi_errorCount = n,
                      asi_circuitBreaker = open_breaker\<lparr>cb_state := CLOSED\<rparr>,
                      asi_healthMetrics = HealthMetrics_new\<rparr>"
  let ?ag = "\<lparr>agent_state = ERROR, agent_lastActiveTime = 400\<rparr>"
  let ?oa = "\<lambda>n. full_orchestrator\<lparr>oa_agents := [(''eslint'', ?ag)],
                                      oa_agentStates := [(''eslint'', ?si n)]\<rparr>"
  let ?emptied = "\<lparr>pq_high = [], pq_normal = [], pq_low = [], pq_isProcessing = True\<rparr>
                    :: unit PriorityMessageQueue"
  let ?w = "\<lparr>clock = 500\<rparr>"
  have deq: "PMQ_dequeue (oa_messageQueue (?oa n)) = (Some sample_message, ?emptied)" for n
    by (simp add: full_orchestrator_def PMQ_dequeue_def dequeueItem_def)
  have ag: "Map_get (oa_agents (?oa n)) (targetAgent sample_message) = Some ?ag" for n
    by (simp add: Map_get_def sample_message_def)
  have st: "Map_get (oa_agentStates (?oa n)) (targetAgent sample_message) = Some (?si n)" for n
    by (simp add: Map_get_def sample_message_def)
  have unhealthy: "\<not> isAgentHealthy (targetAgent sample_message) (?oa n) ?w" for n
    by (simp add: isAgentHealthy_def Map_get_def sample_message_def Let_def)
  have mr: "nullish (ac_maxRetries (oa_config (?oa n))) 3 = 3" for n
    by (simp add: full_orchestrator_def nullish_def)
  have mr0: "nullish (ac_maxRetries (oa_config full_orchestrator)) 3 = 3"
    by (simp add: full_orchestrator_def nullish_def)
  have sz: "PMQ_size (oa_messageQueue (?oa 1)) = 1"
    by (simp add: full_orchestrator_def PMQ_size_def)
  have enq: "PMQ_enqueue sample_message ?emptied ?w
               = ?emptied\<lparr>pq_normal := [\<lparr>qi_message = sample_message, addedAt = 500\<rparr>]\<rparr>"
    by (simp add: PMQ_enqueue_def sortQueues_def priority_above_def sample_message_def Let_def)
  show ?thesis
    using drain_requeues_or_drops_unhealthy [OF deq [of 1] ag [of 1] st [of 1] unhealthy [of 1],
            where parse = schema_parse and raw = None and w' = ?w
              and agents = "[]" and states = "[]"]
          drain_requeues_or_drops_unhealthy [OF deq [of 3] ag [of 3] st [of 3] unhealthy [of 3],
            where parse = schema_parse and raw = None and w' = ?w
              and agents = "[]" and states = "[]"]
          deq ag st unhealthy sz
    by (simp add: Let_def mr mr0 enq PMQ_size_def)
qed

section \<open>Registry: properties\<close>

lemma AR_registerAgent_first:
  assumes "ar_agents ar = []" and "ar_maxAgents ar = 1"
  shows "AR_registerAgent name (Some a) ar =
           (Inr (), ar\<lparr>ar_agents := [(name, a)],
                        ar_lastHealthCheck :=
                          Map_set name \<lparr>ah_name = name, ah_state = agent_state a,
                                        ah_lastActive = Some (agent_lastActiveTime a)\<rparr>
                            (ar_lastHealthCheck ar)\<rparr>)"
  using assms by (simp add: AR_registerAgent_def Map_has_def Map_size_def Map_set_def)

text \<open>
  Claim C9 (registry capacity and unique names).  A registry built with \<open>maxAgents = 1\<close>
  accepts the registration of an agent and then rejects the registration of an agent
  under another name with the capacity error, unchanged.  In every registry, registering
  an agent under a name that is already present is rejected with the name-collision
  error, and the registry (its agent map included) is unchanged.
\<close>

theorem registry_capacity_and_unique_names:
  "(name2 \<noteq> name1 \<longrightarrow>
      (\<exists>ar1. AR_registerAgent name1 (Some a1)
                (AgentRegistry_new (Some \<lparr>rc_maxAgents = Some 1, rc_healthCheckIntervalMs = interval\<rparr>))
              = (Inr (), ar1) \<and>
            ar_agents ar1 = [(name1, a1)] \<and>
            AR_registerAgent name2 (Some a2) ar1
              = (Inl (PlainError ''Maximum number of agents reached''), ar1)))
   \<and> (Map_has (ar_agents ar) name \<longrightarrow>
        AR_registerAgent name (Some a) ar
          = (Inl (PlainError (''Agent with name '' @ name @ '' already exists'')), ar))"
proof -
  let ?new = "AgentRegistry_new (Some \<lparr>rc_maxAgents = Some 1, rc_healthCheckIntervalMs = interval\<rparr>)"
  let ?ar1 = "?new\<lparr>ar_agents := [(name1, a1)],
                    ar_lastHealthCheck :=
                      Map_set name1 \<lparr>ah_name = name1, ah_state = agent_state a1,
                                     ah_lastActive = Some (agent_lastActiveTime a1)\<rparr>
                        (ar_lastHealthCheck ?new)\<rparr>"
  have n: "ar_agents ?new = []" "ar_maxAgents ?new = 1"
    by (simp_all add: AgentRegistry_new_def nullish_def)
  have first: "AR_registerAgent name1 (Some a1) ?new = (Inr (), ?ar1)"
    using AR_registerAgent_first [OF n] .
  have second: "AR_registerAgent name2 (Some a2) ?ar1
                  = (Inl (PlainError ''Maximum number of agents reached''), ?ar1)"
    if "name2 \<noteq> name1"
    using that n by (simp add: AR_registerAgent_def Map_has_def Map_size_def)
  have dup: "AR_registerAgent name (Some a) ar
          = (Inl (PlainError (''Agent with name '' @ name @ '' already exists'')), ar)"
    if "Map_has (ar_agents ar) name"
    using that by (simp add: AR_registerAgent_def)
  have "ar_agents ?ar1 = [(name1, a1)]" by simp
  with first second dup show ?thesis by blast
qed

theorem registry_capacity_and_unique_names_witness:
  "(let a = \<lparr>agent_state = IDLE, agent_lastActiveTime = 0\<rparr>;
        health = (\<lambda>n. \<lparr>ah_name = n, ah_state = IDLE, ah_lastActive = Some 0\<rparr>);
        ar0 = AgentRegistry_new (Some \<lparr>rc_maxAgents = Some 1, rc_healthCheckIntervalMs = Some 100\<rparr>);
        ar1 = \<lparr>ar_agents = [(''test1'', a)], ar_maxAgents = 1, ar_healthCheckInterval = 100,
               ar_lastHealthCheck = [(''test1'', health ''test1'')]\<rparr>
    in ''test2'' \<noteq> ''test1'' \<and>
       AR_registerAgent ''test1'' (Some a) ar0 = (Inr (), ar1) \<and>
       AR_registerAgent ''test2'' (Some a) ar1
         = (Inl (PlainError ''Maximum number of agents reached''), ar1) \<and>
       Map_has (ar_agents ar1) ''test1'' \<and>
       AR_registerAgent ''test1'' (Some a) ar1
         = (Inl (PlainError ''Agent with name test1 already exists''), ar1))"
  using registry_capacity_and_unique_names
          [where ?name1.0 = "''test1''" and ?name2.0 = "''test2''"
             and ?a1.0 = "\<lparr>agent_state = IDLE, agent_lastActiveTime = 0\<rparr>"
             and ?a2.0 = "\<lparr>agent_state = IDLE, agent_lastActiveTime = 0\<rparr>"
             and interval = "Some 100"
             and ar = "\<lparr>ar_agents = [(''test1'', \<lparr>agent_state = IDLE, agent_lastActiveTime = 0\<rparr>)],
                        ar_maxAgents = 1, ar_healthCheckInterval = 100,
                        ar_lastHealthCheck =
                          [(''test1'', \<lparr>ah_name = ''test1'', ah_state = IDLE, ah_lastActive = Some 0\<rparr>)]\<rparr>"
             and name = "''test1''" and a = "\<lparr>agent_state = IDLE, agent_lastActiveTime = 0\<rparr>"]
  by (simp add: Let_def AgentRegistry_new_def nullish_def Map_has_def Map_set_def AR_registerAgent_def
        Map_size_def)

end
